theory Spec2Isabelle
  imports Complex_Main "HOL-Library.Word"
begin

section \<open>Single-precision floating point\<close>

text \<open>
  The pipeline of \<^verbatim>\<open>native-lib.cpp\<close> computes on C++ \<^verbatim>\<open>float\<close> values. They are modelled
  as IEEE 754 binary32 values: a finite value is the real number it denotes, and the two
  infinities and NaN are values of their own. Every arithmetic operation computes the
  exact real result and rounds it once, to nearest with ties to even, with no excess
  precision. A compiler may contract \<^verbatim>\<open>a - b * c\<close> into one fused operation that rounds
  once (\<open>fused_sub_mul\<close> below); the blend
  \<^verbatim>\<open>float_original[i] - (noise_reduction * strength)\<close> is the only place where this can
  happen, and the model takes the choice of the build as the parameter \<open>fp_contract\<close>
  of the blend and of the functions that call it.

  The type has a single zero. The operations the program uses (subtraction,
  multiplication, comparison, absolute value, conversion to an integer and division by
  the constant 32768) give the same numbers for \<open>+0\<close> and \<open>-0\<close>, up to the sign of a
  zero result.
\<close>

datatype float = Finite real | PInf | NInf | NaN

definition pow2 :: "int \<Rightarrow> real" where
  "pow2 e = (if 0 \<le> e then 2 ^ nat e else 1 / 2 ^ nat (- e))"

text \<open>
  \<open>binade x\<close> is the exponent \<open>e\<close> with \<open>2\<^sup>e \<le> \<bar>x\<bar> < 2\<^sup>e\<^sup>+\<^sup>1\<close>, held between the
  exponent of the subnormal range, \<open>-126\<close>, and the largest exponent, \<open>127\<close>. It is found
  by bisection: \<open>bisect k lo x\<close> looks for it among the \<open>2\<^sup>k\<close> exponents from \<open>lo\<close>.
\<close>

fun bisect :: "nat \<Rightarrow> int \<Rightarrow> real \<Rightarrow> int" where
  "bisect 0 lo x = lo"
| "bisect (Suc k) lo x =
     (if pow2 (lo + 2 ^ k) \<le> x then bisect k (lo + 2 ^ k) x else bisect k lo x)"

definition binade :: "real \<Rightarrow> int" where
  "binade x = min 127 (bisect 8 (- 126) \<bar>x\<bar>)"

text \<open>Rounding a real to the nearest integer, a tie going to the even one.\<close>

definition rne :: "real \<Rightarrow> int" where
  "rne x = (let f = \<lfloor>x\<rfloor>; d = x - of_int f in
     if d < 1 / 2 then f else if 1 / 2 < d then f + 1
     else if even f then f else f + 1)"

text \<open>
  Rounding a real to binary32: the significand has 24 bits, so the spacing of the values
  in the binade of \<open>x\<close> is \<open>2\<^sup>b\<^sup>i\<^sup>n\<^sup>a\<^sup>d\<^sup>e\<^sup> \<^sup>x\<^sup> \<^sup>-\<^sup> \<^sup>2\<^sup>3\<close>; a result of magnitude \<open>2\<^sup>1\<^sup>2\<^sup>8\<close> overflows to
  an infinity.
\<close>

definition round32 :: "real \<Rightarrow> float" where
  "round32 x = (let q = pow2 (binade x - 23); r = of_int (rne (x / q)) * q in
     if 2 ^ 128 \<le> r then PInf else if r \<le> - (2 ^ 128) then NInf else Finite r)"

fun fsub :: "float \<Rightarrow> float \<Rightarrow> float" where
  "fsub NaN y = NaN"
| "fsub x NaN = NaN"
| "fsub (Finite a) (Finite b) = round32 (a - b)"
| "fsub (Finite a) PInf = NInf"
| "fsub (Finite a) NInf = PInf"
| "fsub PInf PInf = NaN"
| "fsub PInf y = PInf"
| "fsub NInf NInf = NaN"
| "fsub NInf y = NInf"

fun fneg :: "float \<Rightarrow> float" where
  "fneg (Finite a) = Finite (- a)"
| "fneg PInf = NInf"
| "fneg NInf = PInf"
| "fneg NaN = NaN"

fun fmul :: "float \<Rightarrow> float \<Rightarrow> float" where
  "fmul NaN y = NaN"
| "fmul x NaN = NaN"
| "fmul (Finite a) (Finite b) = round32 (a * b)"
| "fmul (Finite a) y = (if a = 0 then NaN else if 0 < a then y else fneg y)"
| "fmul x (Finite b) = (if b = 0 then NaN else if 0 < b then x else fneg x)"
| "fmul PInf y = y"
| "fmul NInf y = fneg y"

text \<open>
  The fused operation \<open>a - b * c\<close>: the exact result of finite operands is rounded once.
  An infinite \<open>a\<close> stays, since the exact product of finite numbers is finite; with an
  infinite or NaN factor the product is computed without rounding.
\<close>

fun fused_sub_mul :: "float \<Rightarrow> float \<Rightarrow> float \<Rightarrow> float" where
  "fused_sub_mul (Finite a) (Finite b) (Finite c) = round32 (a - b * c)"
| "fused_sub_mul PInf (Finite b) (Finite c) = PInf"
| "fused_sub_mul NInf (Finite b) (Finite c) = NInf"
| "fused_sub_mul x y z = fsub x (fmul y z)"

text \<open>
  Division; a zero divisor is read as \<open>+0\<close>. The program divides by the constant 32768
  only.
\<close>

fun fdiv :: "float \<Rightarrow> float \<Rightarrow> float" where
  "fdiv NaN y = NaN"
| "fdiv x NaN = NaN"
| "fdiv (Finite a) (Finite b) =
     (if b \<noteq> 0 then round32 (a / b)
      else if a = 0 then NaN else if 0 < a then PInf else NInf)"
| "fdiv (Finite a) y = Finite 0"
| "fdiv x (Finite b) = (if 0 \<le> b then x else fneg x)"
| "fdiv x y = NaN"

fun fabs :: "float \<Rightarrow> float" where
  "fabs (Finite a) = Finite \<bar>a\<bar>"
| "fabs PInf = PInf"
| "fabs NInf = PInf"
| "fabs NaN = NaN"

text \<open>The comparisons; every comparison with NaN is false.\<close>

fun flt :: "float \<Rightarrow> float \<Rightarrow> bool" where
  "flt NaN y = False"
| "flt x NaN = False"
| "flt (Finite a) (Finite b) = (a < b)"
| "flt x PInf = (x \<noteq> PInf)"
| "flt NInf y = (y \<noteq> NInf)"
| "flt x y = False"

definition fgt :: "float \<Rightarrow> float \<Rightarrow> bool" where
  "fgt x y = flt y x"

fun fle :: "float \<Rightarrow> float \<Rightarrow> bool" where
  "fle NaN y = False"
| "fle x NaN = False"
| "fle (Finite a) (Finite b) = (a \<le> b)"
| "fle x PInf = True"
| "fle NInf y = True"
| "fle x y = False"

definition fge :: "float \<Rightarrow> float \<Rightarrow> bool" where
  "fge x y = fle y x"

text \<open>
  The values of the type that are binary32 values: a finite one is a real that rounding
  leaves as it is.
\<close>

fun is_float32 :: "float \<Rightarrow> bool" where
  "is_float32 (Finite a) = (round32 a = Finite a)"
| "is_float32 x = True"

fun is_finite :: "float \<Rightarrow> bool" where
  "is_finite (Finite a) = True"
| "is_finite x = False"

definition finite32 :: "float \<Rightarrow> bool" where
  "finite32 x = (is_finite x \<and> is_float32 x)"

section \<open>Conversions between integers and floats\<close>

type_synonym int16 = "16 word"

text \<open>\<^verbatim>\<open>static_cast<float>(sample)\<close> for a 16-bit signed sample.\<close>

definition float_of_s16 :: "int16 \<Rightarrow> float" where
  "float_of_s16 sample = round32 (of_int (sint sample))"

text \<open>
  \<^verbatim>\<open>static_cast<int16_t>(scaled)\<close>: the fractional part is discarded. The behaviour of the
  C++ conversion is undefined when the truncated value does not fit the 16-bit type, and
  for an infinity or NaN: the model has no result there (\<open>None\<close>).
\<close>

definition c_trunc :: "real \<Rightarrow> int" where
  "c_trunc x = (if 0 \<le> x then \<lfloor>x\<rfloor> else \<lceil>x\<rceil>)"

fun s16_of_float :: "float \<Rightarrow> int16 option" where
  "s16_of_float (Finite a) =
     (if - 32768 \<le> c_trunc a \<and> c_trunc a \<le> 32767 then Some (word_of_int (c_trunc a))
      else None)"
| "s16_of_float x = None"

text \<open>The two helper functions of the source.\<close>

definition s16_to_float :: "int16 \<Rightarrow> float" where
  "s16_to_float sample = fdiv (float_of_s16 sample) (Finite 32768)"

definition float_to_s16 :: "float \<Rightarrow> int16 option" where
  "float_to_s16 sample =
     (let scaled = fmul sample (Finite 32767) in
      if fge scaled (Finite 32767) then Some 32767
      else if fle scaled (Finite (- 32768)) then Some (- 32768)
      else s16_of_float scaled)"

section \<open>The frame pipeline\<close>

definition RNNOISE_FRAME_SIZE :: int where
  "RNNOISE_FRAME_SIZE = 480"

definition INT_MAX :: int where
  "INT_MAX = 2147483647"

text \<open>
  \<^verbatim>\<open>rnnoise_process_frame\<close> belongs to the RNNoise library and is a parameter of the model:
  from the state of the denoiser and the input frame it gives the next state and the
  value it writes to each index of the output frame.
\<close>

type_synonym 'st engine = "'st \<Rightarrow> float list \<Rightarrow> 'st \<times> (nat \<Rightarrow> float)"

text \<open>
  The buffer \<^verbatim>\<open>samples\<close> is a list of 16-bit words. An access outside it is undefined
  behaviour in C++, and has no result here.
\<close>

definition load16 :: "int16 list \<Rightarrow> int \<Rightarrow> int16 option" where
  "load16 samples idx =
     (if 0 \<le> idx \<and> idx < int (length samples) then Some (samples ! nat idx) else None)"

definition store16 :: "int16 list \<Rightarrow> int \<Rightarrow> int16 \<Rightarrow> int16 list option" where
  "store16 samples idx v =
     (if 0 \<le> idx \<and> idx < int (length samples) then Some (samples[nat idx := v]) else None)"

text \<open>Step 1: the samples of the first channel, read for the indices \<open>i\<close> of a frame.\<close>

fun deinterleave :: "int16 list \<Rightarrow> int \<Rightarrow> int \<Rightarrow> nat list \<Rightarrow> float list option" where
  "deinterleave samples frame_start channels [] = Some []"
| "deinterleave samples frame_start channels (i # rest) =
     (case load16 samples ((frame_start + int i) * channels) of
        None \<Rightarrow> None
      | Some v \<Rightarrow>
          map_option ((#) (s16_to_float v)) (deinterleave samples frame_start channels rest))"

text \<open>
  Step 3, the body of the loop over the frame: the blend of the original and the denoised
  sample (with its product and its difference rounded apart, or fused when the build
  contracts them), the gate, and the clamp of the two last statements of the body.
\<close>

definition clamp :: "float \<Rightarrow> float" where
  "clamp x =
     (let upper = (if fgt x (Finite 1) then Finite 1 else x)
      in if flt upper (Finite (- 1)) then Finite (- 1) else upper)"

definition blend :: "bool \<Rightarrow> float \<Rightarrow> float \<Rightarrow> float \<Rightarrow> float" where
  "blend fp_contract strength original denoised =
     (let noise_reduction = fsub original denoised
      in if fp_contract then fused_sub_mul original noise_reduction strength
         else fsub original (fmul noise_reduction strength))"

definition enhance_sample :: "bool \<Rightarrow> float \<Rightarrow> float \<Rightarrow> bool \<Rightarrow> float \<Rightarrow> float \<Rightarrow> float" where
  "enhance_sample fp_contract strength gateThreshold useSpectralGating original denoised =
     (let blended = blend fp_contract strength original denoised;
          gated = (if useSpectralGating \<and> flt (fabs blended) gateThreshold
                   then Finite 0 else blended)
      in clamp gated)"

text \<open>Step 4: the processed samples, written back for the indices \<open>i\<close> of a frame.\<close>

fun interleave ::
  "int16 list \<Rightarrow> int \<Rightarrow> int \<Rightarrow> float list \<Rightarrow> nat list \<Rightarrow> int16 list option" where
  "interleave samples frame_start channels float_out [] = Some samples"
| "interleave samples frame_start channels float_out (i # rest) =
     (case float_to_s16 (float_out ! i) of
        None \<Rightarrow> None
      | Some v \<Rightarrow>
          (case store16 samples ((frame_start + int i) * channels) v of
             None \<Rightarrow> None
           | Some samples' \<Rightarrow> interleave samples' frame_start channels float_out rest))"

text \<open>
  One iteration of the loop over the frames. The three static vectors of the source are
  overwritten in all their 480 entries before they are read, so they are values of the
  iteration here.
\<close>

definition process_frame ::
  "bool \<Rightarrow> 'st engine \<Rightarrow> float \<Rightarrow> float \<Rightarrow> bool \<Rightarrow> int \<Rightarrow> 'st \<Rightarrow> int16 list \<Rightarrow> int \<Rightarrow> int
    \<Rightarrow> ('st \<times> int16 list) option" where
  "process_frame fp_contract rnnoise_process_frame strength gateThreshold useSpectralGating channels
      st samples frame_start samples_in_this_frame =
     (case deinterleave samples frame_start channels [0..<nat samples_in_this_frame] of
        None \<Rightarrow> None
      | Some vals \<Rightarrow>
          (let float_in =
                 vals @ replicate (nat (RNNOISE_FRAME_SIZE - samples_in_this_frame)) (Finite 0);
               float_original = float_in;
               (st', denoised) = rnnoise_process_frame st float_in;
               float_out =
                 map (\<lambda>i. enhance_sample fp_contract strength gateThreshold useSpectralGating
                            (float_original ! i) (denoised i))
                   [0..<nat RNNOISE_FRAME_SIZE]
           in map_option (Pair st')
                (interleave samples frame_start channels float_out
                   [0..<nat samples_in_this_frame])))"

text \<open>
  The loop over the frames. The increment of \<^verbatim>\<open>frame_start_sample\<close> is an addition of C++
  \<^verbatim>\<open>int\<close>s, undefined when it overflows.
\<close>

function frames_loop ::
  "bool \<Rightarrow> 'st engine \<Rightarrow> float \<Rightarrow> float \<Rightarrow> bool \<Rightarrow> int \<Rightarrow> int \<Rightarrow> 'st \<Rightarrow> int16 list \<Rightarrow> int
    \<Rightarrow> ('st \<times> int16 list) option" where
  "frames_loop fp_contract rnnoise_process_frame strength gateThreshold useSpectralGating channels
      samples_per_channel st samples frame_start =
     (if frame_start < samples_per_channel then
        (let samples_in_this_frame =
               min RNNOISE_FRAME_SIZE (samples_per_channel - frame_start) in
         if samples_in_this_frame \<le> 0 then Some (st, samples)
         else
           (case process_frame fp_contract rnnoise_process_frame strength gateThreshold
                   useSpectralGating channels st samples frame_start samples_in_this_frame of
              None \<Rightarrow> None
            | Some (st', samples') \<Rightarrow>
                if INT_MAX < frame_start + RNNOISE_FRAME_SIZE then None
                else frames_loop fp_contract rnnoise_process_frame strength gateThreshold
                       useSpectralGating channels samples_per_channel st' samples'
                       (frame_start + RNNOISE_FRAME_SIZE)))
      else Some (st, samples))"
  by pat_completeness auto
termination
  by (relation "measure (\<lambda>(f, e, s, g, u, c, spc, st, b, fs). nat (spc - fs))")
     (auto simp: RNNOISE_FRAME_SIZE_def)

text \<open>
  The division of C++ \<^verbatim>\<open>int\<close>s truncates towards zero.
\<close>

definition c_div :: "int \<Rightarrow> int \<Rightarrow> int" where
  "c_div a b = sgn a * sgn b * (\<bar>a\<bar> div \<bar>b\<bar>)"

text \<open>
  The two failures of \<^verbatim>\<open>process_audio_with_rnnoise\<close>. The function returns \<^verbatim>\<open>false\<close> for
  both, after logging ``RNNoise state is null'' for the first and ``Invalid channel
  count'' for the second.
\<close>

datatype error = EngineUnavailable | InvalidChannelCount

datatype status = Succeeded | Failed error

text \<open>
  \<^verbatim>\<open>process_audio_with_rnnoise\<close>, with the global \<^verbatim>\<open>rnnoise_state\<close> as an argument (\<open>None\<close> is
  the null pointer). The result is the returned status, the buffer and the state of the
  denoiser after the call, or \<open>None\<close> when the behaviour of the call is undefined. The
  sample rate is only compared with 48000 for a warning in the log.
\<close>

definition process_audio_with_rnnoise ::
  "bool \<Rightarrow> 'st engine \<Rightarrow> 'st option \<Rightarrow> int16 list \<Rightarrow> int \<Rightarrow> int \<Rightarrow> int \<Rightarrow> float \<Rightarrow> float \<Rightarrow> bool
    \<Rightarrow> (status \<times> int16 list \<times> 'st option) option" where
  "process_audio_with_rnnoise fp_contract rnnoise_process_frame rnnoise_state samples numSamples
      sampleRate channels strength gateThreshold useSpectralGating =
     (case rnnoise_state of
        None \<Rightarrow> Some (Failed EngineUnavailable, samples, None)
      | Some st \<Rightarrow>
          if channels \<le> 0 then Some (Failed InvalidChannelCount, samples, Some st)
          else if numSamples \<le> 0 then Some (Succeeded, samples, Some st)
          else
            (let samples_per_channel = c_div numSamples channels in
             case frames_loop fp_contract rnnoise_process_frame strength gateThreshold
                    useSpectralGating channels samples_per_channel st samples 0 of
               None \<Rightarrow> None
             | Some (st', samples') \<Rightarrow> Some (Succeeded, samples', Some st')))"

section \<open>Positions, frames and the output of the denoiser\<close>

text \<open>
  The position in the buffer of sample \<open>k\<close> of the first channel, and the positions the
  frames cover: \<open>(frame_start + i) * channels\<close> for the frames that start below
  \<open>samples_per_channel\<close> and the indices \<open>i\<close> below \<open>samples_in_this_frame\<close>.
\<close>

definition position :: "int \<Rightarrow> int \<Rightarrow> nat" where
  "position channels k = nat (k * channels)"

definition frame_positions :: "int \<Rightarrow> int \<Rightarrow> nat set" where
  "frame_positions numSamples channels =
     (let samples_per_channel = c_div numSamples channels in
      {position channels (frame_start + i) | frame_start i.
         0 \<le> frame_start \<and> frame_start mod RNNOISE_FRAME_SIZE = 0 \<and>
         frame_start < samples_per_channel \<and> 0 \<le> i \<and>
         i < min RNNOISE_FRAME_SIZE (samples_per_channel - frame_start)})"

text \<open>
  The input frame of the denoiser for the frame at \<open>frame_start\<close>: the converted samples
  of the first channel, padded with zeros.
\<close>

definition frame_input :: "int16 list \<Rightarrow> int \<Rightarrow> int \<Rightarrow> int \<Rightarrow> float list" where
  "frame_input samples frame_start channels samples_in_this_frame =
     map (\<lambda>i. s16_to_float (samples ! position channels (frame_start + int i)))
       [0..<nat samples_in_this_frame]
     @ replicate (nat (RNNOISE_FRAME_SIZE - samples_in_this_frame)) (Finite 0)"

text \<open>
  The value the denoiser gives for sample \<open>k\<close> of the first channel, when it is run on the
  frames of the buffer in their order, from the frame at \<open>frame_start\<close> and the state \<open>st\<close>.
\<close>

function denoised_from ::
  "'st engine \<Rightarrow> int \<Rightarrow> int \<Rightarrow> 'st \<Rightarrow> int16 list \<Rightarrow> int \<Rightarrow> int \<Rightarrow> float" where
  "denoised_from rnnoise_process_frame channels samples_per_channel st samples frame_start k =
     (let samples_in_this_frame =
            min RNNOISE_FRAME_SIZE (samples_per_channel - frame_start);
          (st', denoised) =
            rnnoise_process_frame st
              (frame_input samples frame_start channels samples_in_this_frame)
      in if k < frame_start + RNNOISE_FRAME_SIZE then denoised (nat (k - frame_start))
         else denoised_from rnnoise_process_frame channels samples_per_channel st' samples
                (frame_start + RNNOISE_FRAME_SIZE) k)"
  by pat_completeness auto
termination
  by (relation "measure (\<lambda>(e, c, spc, st, b, fs, k). nat (k - fs))")
     (auto simp: RNNOISE_FRAME_SIZE_def)

definition model_output ::
  "'st engine \<Rightarrow> 'st \<Rightarrow> int16 list \<Rightarrow> int \<Rightarrow> int \<Rightarrow> int \<Rightarrow> float" where
  "model_output rnnoise_process_frame st samples numSamples channels k =
     denoised_from rnnoise_process_frame channels (c_div numSamples channels) st samples 0 k"

text \<open>The state of the denoiser after the frames from \<open>frame_start\<close> on.\<close>

function state_from ::
  "'st engine \<Rightarrow> int \<Rightarrow> int \<Rightarrow> 'st \<Rightarrow> int16 list \<Rightarrow> int \<Rightarrow> 'st" where
  "state_from rnnoise_process_frame channels samples_per_channel st samples frame_start =
     (if frame_start < samples_per_channel then
        state_from rnnoise_process_frame channels samples_per_channel
          (fst (rnnoise_process_frame st
             (frame_input samples frame_start channels
                (min RNNOISE_FRAME_SIZE (samples_per_channel - frame_start)))))
          samples (frame_start + RNNOISE_FRAME_SIZE)
      else st)"
  by pat_completeness auto
termination
  by (relation "measure (\<lambda>(e, c, spc, st, b, fs). nat (spc - fs))")
     (auto simp: RNNOISE_FRAME_SIZE_def)

text \<open>A float subtraction that rounds nothing away.\<close>

fun exact_sub :: "float \<Rightarrow> float \<Rightarrow> bool" where
  "exact_sub (Finite a) (Finite b) = (fsub (Finite a) (Finite b) = Finite (a - b))"
| "exact_sub x y = False"

text \<open>A denoiser without state that writes the same value to every index.\<close>

definition const_engine :: "float \<Rightarrow> unit engine" where
  "const_engine d st float_in = (st, \<lambda>i. d)"

text \<open>The sample at a position of the buffer a call returns, if the call returns one.\<close>

fun written :: "(status \<times> int16 list \<times> 'st option) option \<Rightarrow> nat \<Rightarrow> int16 option" where
  "written (Some (Succeeded, samples, st)) p = Some (samples ! p)"
| "written r p = None"

section \<open>Properties of the rounding\<close>

lemma pow2_powi: "pow2 e = 2 powi e"
  by (simp add: pow2_def power_int_def power_one_over)

lemma pow2_pos [simp]: "0 < pow2 e"
  by (simp add: pow2_powi)

lemma pow2_add: "pow2 (a + b) = pow2 a * pow2 b"
  by (simp add: pow2_powi power_int_add)

lemma pow2_mono: "a \<le> b \<Longrightarrow> pow2 a \<le> pow2 b"
  by (simp add: pow2_powi power_int_increasing)

lemma pow2_nat: "pow2 (int n) = 2 ^ n"
  by (simp add: pow2_def)

lemma pow2_neg_nat: "pow2 (- int n) = 1 / 2 ^ n"
  by (simp add: pow2_powi power_int_minus_divide)

lemma bisect_range: "lo \<le> bisect k lo x \<and> bisect k lo x < lo + 2 ^ k"
proof (induction k arbitrary: lo)
  case 0
  show ?case by simp
next
  case (Suc k)
  from Suc [of lo] Suc [of "lo + 2 ^ k"] show ?case by auto
qed

lemma bisect_lower: "bisect k lo x = lo \<or> pow2 (bisect k lo x) \<le> x"
proof (induction k arbitrary: lo)
  case 0
  show ?case by simp
next
  case (Suc k)
  from Suc [of lo] Suc [of "lo + 2 ^ k"] show ?case by auto
qed

lemma bisect_upper: "x < pow2 (lo + 2 ^ k) \<Longrightarrow> x < pow2 (bisect k lo x + 1)"
proof (induction k arbitrary: lo)
  case 0
  then show ?case by simp
next
  case (Suc k)
  show ?case
  proof (cases "pow2 (lo + 2 ^ k) \<le> x")
    case True
    have "lo + 2 ^ k + 2 ^ k = lo + 2 ^ Suc k" by simp
    with Suc.prems have "x < pow2 (lo + 2 ^ k + 2 ^ k)" by (simp only:)
    from Suc.IH [OF this] True show ?thesis by simp
  next
    case False
    then have "x < pow2 (lo + 2 ^ k)" by simp
    from Suc.IH [OF this] False show ?thesis by simp
  qed
qed

lemma binade_range: "- 126 \<le> binade x \<and> binade x \<le> 127"
  using bisect_range [of "- 126" 8 "\<bar>x\<bar>"] by (simp add: binade_def)

lemma binade_lower: "binade x = - 126 \<or> pow2 (binade x) \<le> \<bar>x\<bar>"
proof -
  define e where "e = bisect 8 (- 126) \<bar>x\<bar>"
  from bisect_lower [of 8 "- 126" "\<bar>x\<bar>"] consider "e = - 126" | "pow2 e \<le> \<bar>x\<bar>"
    by (auto simp: e_def)
  then show ?thesis
  proof cases
    case 1
    then show ?thesis by (simp add: binade_def e_def [symmetric])
  next
    case 2
    have "pow2 (min 127 e) \<le> pow2 e" by (rule pow2_mono) simp
    with 2 show ?thesis by (simp add: binade_def e_def [symmetric])
  qed
qed

lemma binade_upper:
  assumes "\<bar>x\<bar> < pow2 128"
  shows "\<bar>x\<bar> < pow2 (binade x + 1)"
proof -
  define e where "e = bisect 8 (- 126) \<bar>x\<bar>"
  have "pow2 128 \<le> pow2 (- 126 + 2 ^ 8)" by (rule pow2_mono) simp
  with assms have "\<bar>x\<bar> < pow2 (- 126 + 2 ^ 8)" by simp
  then have up: "\<bar>x\<bar> < pow2 (e + 1)" unfolding e_def by (rule bisect_upper)
  have "e \<le> 127"
  proof (rule ccontr)
    assume "\<not> e \<le> 127"
    then have "128 \<le> e" "e \<noteq> - 126" by simp_all
    with bisect_lower [of 8 "- 126" "\<bar>x\<bar>"] have "pow2 e \<le> \<bar>x\<bar>" by (simp add: e_def)
    moreover have "pow2 128 \<le> pow2 e" using \<open>128 \<le> e\<close> by (rule pow2_mono)
    ultimately show False using assms by simp
  qed
  with up show ?thesis by (simp add: binade_def e_def [symmetric])
qed

lemma bisect_numeral:
  "bisect (numeral n) lo x =
     (if pow2 (lo + 2 ^ pred_numeral n) \<le> x
      then bisect (pred_numeral n) (lo + 2 ^ pred_numeral n) x
      else bisect (pred_numeral n) lo x)"
  by (simp add: numeral_eq_Suc)

lemmas round32_eval = round32_def binade_def rne_def pow2_def bisect_numeral Let_def

lemma rne_lower: "of_int n \<le> x \<Longrightarrow> n \<le> rne x"
proof -
  assume "of_int n \<le> x"
  then have "n \<le> \<lfloor>x\<rfloor>" by (simp add: le_floor_iff)
  then show ?thesis by (simp add: rne_def Let_def)
qed

lemma rne_upper: "x \<le> of_int n \<Longrightarrow> rne x \<le> n"
  unfolding rne_def Let_def by (auto split: if_splits) linarith+

lemma rne_of_int [simp]: "rne (of_int n) = n"
  by (simp add: rne_def)

lemma rne_close: "\<bar>of_int (rne x) - x\<bar> \<le> 1 / 2"
  unfolding rne_def Let_def by (auto split: if_splits)

lemma pow2_less_imp: "pow2 a \<le> x \<Longrightarrow> x < pow2 b \<Longrightarrow> a < b"
proof (rule ccontr)
  assume a: "pow2 a \<le> x" "x < pow2 b" and "\<not> a < b"
  then have "pow2 b \<le> pow2 a" by (simp add: pow2_mono)
  with a show False by simp
qed

text \<open>Below \<open>2\<^sup>2\<^sup>4\<^sup>-\<^sup>k\<close> the spacing of the binary32 values divides \<open>2\<^sup>-\<^sup>k\<close>.\<close>

lemma round32_grid:
  assumes k: "k \<le> 149" and x: "\<bar>x\<bar> * 2 ^ k < 2 ^ 24"
  shows "\<exists>j. k \<le> j \<and> round32 x = Finite (of_int (rne (x * 2 ^ j)) / 2 ^ j)"
proof -
  define b where "b = binade x"
  have "b - 23 \<le> - int k"
  proof -
    from binade_lower [of x] consider "b = - 126" | "pow2 b \<le> \<bar>x\<bar>"
      by (auto simp: b_def)
    then show ?thesis
    proof cases
      case 1
      with k show ?thesis by simp
    next
      case 2
      have "\<bar>x\<bar> < 2 ^ 24 / 2 ^ k" using x by (simp add: field_simps)
      also have "\<dots> = pow2 (24 - int k)"
        by (simp add: pow2_powi power_int_diff)
      finally have "b < 24 - int k" using 2 by (rule pow2_less_imp [rotated])
      then show ?thesis by simp
    qed
  qed
  define j where "j = nat (23 - b)"
  have j: "b - 23 = - int j" "k \<le> j"
    using \<open>b - 23 \<le> - int k\<close> by (auto simp: j_def)
  have q: "pow2 (binade x - 23) = 1 / 2 ^ j"
    using j(1) by (simp add: b_def pow2_neg_nat)
  define m where "m = rne (x * 2 ^ j)"
  have xb: "\<bar>x\<bar> < 2 ^ 24"
  proof -
    have "\<bar>x\<bar> * 1 \<le> \<bar>x\<bar> * 2 ^ k" by (rule mult_left_mono) simp_all
    with x show ?thesis by simp
  qed
  have "x * 2 ^ j \<le> of_int (2 ^ (24 + j))"
  proof -
    have "x * 2 ^ j \<le> 2 ^ 24 * 2 ^ j"
      using xb by (intro mult_right_mono) auto
    then show ?thesis by (simp add: power_add)
  qed
  then have mu: "m \<le> 2 ^ (24 + j)" unfolding m_def by (rule rne_upper)
  have "of_int (- (2 ^ (24 + j))) \<le> x * 2 ^ j"
  proof -
    have "- (2 ^ 24) * 2 ^ j \<le> x * 2 ^ j"
      using xb by (intro mult_right_mono) auto
    then show ?thesis by (simp add: power_add)
  qed
  then have ml: "- (2 ^ (24 + j)) \<le> m" unfolding m_def by (rule rne_lower)
  have "real_of_int m \<le> 2 ^ (24 + j)" using mu
    by (metis of_int_le_iff of_int_numeral of_int_power)
  then have ru: "real_of_int m / 2 ^ j \<le> 2 ^ 24"
    by (simp add: field_simps power_add)
  have "- (2 ^ (24 + j)) \<le> real_of_int m" using ml
    by (metis of_int_le_iff of_int_numeral of_int_power of_int_minus)
  then have rl: "- (2 ^ 24) \<le> real_of_int m / 2 ^ j"
    by (simp add: field_simps power_add)
  have "round32 x = Finite (real_of_int m / 2 ^ j)"
    using ru rl by (simp add: round32_def q m_def [symmetric] Let_def)
  with j(2) show ?thesis by (auto simp: m_def)
qed

lemma round32_grid_lower:
  assumes "k \<le> 149" and "\<bar>x\<bar> * 2 ^ k < 2 ^ 24" and "real_of_int n / 2 ^ k \<le> x"
  shows "\<exists>r. round32 x = Finite r \<and> real_of_int n / 2 ^ k \<le> r"
proof -
  from round32_grid [OF assms(1,2)] obtain j where j: "k \<le> j"
    and r: "round32 x = Finite (of_int (rne (x * 2 ^ j)) / 2 ^ j)" by blast
  from j obtain d where d: "j = k + d" using le_Suc_ex by blast
  have eq: "real_of_int (n * 2 ^ d) = (real_of_int n / 2 ^ k) * 2 ^ j"
    by (simp add: d power_add)
  have "(real_of_int n / 2 ^ k) * 2 ^ j \<le> x * 2 ^ j"
    using assms(3) by (intro mult_right_mono) auto
  then have "real_of_int (n * 2 ^ d) \<le> x * 2 ^ j" by (simp only: eq)
  then have "n * 2 ^ d \<le> rne (x * 2 ^ j)" by (rule rne_lower)
  then have "real_of_int (n * 2 ^ d) \<le> of_int (rne (x * 2 ^ j))"
    by (simp only: of_int_le_iff)
  then have "(real_of_int n / 2 ^ k) * 2 ^ j \<le> of_int (rne (x * 2 ^ j))"
    by (simp only: eq)
  then have "real_of_int n / 2 ^ k \<le> of_int (rne (x * 2 ^ j)) / 2 ^ j"
    by (simp add: field_simps)
  with r show ?thesis by blast
qed

lemma round32_grid_upper:
  assumes "k \<le> 149" and "\<bar>x\<bar> * 2 ^ k < 2 ^ 24" and "x \<le> real_of_int n / 2 ^ k"
  shows "\<exists>r. round32 x = Finite r \<and> r \<le> real_of_int n / 2 ^ k"
proof -
  from round32_grid [OF assms(1,2)] obtain j where j: "k \<le> j"
    and r: "round32 x = Finite (of_int (rne (x * 2 ^ j)) / 2 ^ j)" by blast
  from j obtain d where d: "j = k + d" using le_Suc_ex by blast
  have eq: "real_of_int (n * 2 ^ d) = (real_of_int n / 2 ^ k) * 2 ^ j"
    by (simp add: d power_add)
  have "x * 2 ^ j \<le> (real_of_int n / 2 ^ k) * 2 ^ j"
    using assms(3) by (intro mult_right_mono) auto
  then have "x * 2 ^ j \<le> real_of_int (n * 2 ^ d)" by (simp only: eq)
  then have "rne (x * 2 ^ j) \<le> n * 2 ^ d" by (rule rne_upper)
  then have "real_of_int (rne (x * 2 ^ j)) \<le> of_int (n * 2 ^ d)"
    by (simp only: of_int_le_iff)
  then have "of_int (rne (x * 2 ^ j)) \<le> (real_of_int n / 2 ^ k) * 2 ^ j"
    by (simp only: eq)
  then have "of_int (rne (x * 2 ^ j)) / 2 ^ j \<le> real_of_int n / 2 ^ k"
    by (simp add: field_simps)
  with r show ?thesis by blast
qed

lemma round32_grid_exact:
  assumes "k \<le> 149" and "\<bar>real_of_int n\<bar> < 2 ^ 24"
  shows "round32 (real_of_int n / 2 ^ k) = Finite (real_of_int n / 2 ^ k)"
proof -
  have b: "\<bar>real_of_int n / 2 ^ k\<bar> * 2 ^ k < 2 ^ 24"
    using assms(2) by simp
  from round32_grid_lower [OF assms(1) b order_refl]
    round32_grid_upper [OF assms(1) b order_refl]
  show ?thesis by auto
qed

lemma round32_not_NaN [simp]: "round32 x \<noteq> NaN"
  by (simp add: round32_def Let_def)

lemma pow2_128: "pow2 128 = 2 ^ 128"
  by (simp add: pow2_def)

lemma pow2_127: "pow2 127 = 2 ^ 127"
  by (simp add: pow2_def)

lemma int_abs_bound:
  fixes m :: int
  assumes "\<bar>real_of_int m\<bar> < 2 ^ 24"
  shows "\<bar>real_of_int m\<bar> \<le> 2 ^ 24 - 1"
proof -
  have "real_of_int \<bar>m\<bar> < real_of_int (2 ^ 24)"
    using assms by (simp only: of_int_abs of_int_power of_int_numeral)
  then have "\<bar>m\<bar> < 2 ^ 24" by (simp only: of_int_less_iff)
  then have "\<bar>m\<bar> \<le> 2 ^ 24 - 1" by linarith
  then have "real_of_int \<bar>m\<bar> \<le> real_of_int (2 ^ 24 - 1)" by (simp only: of_int_le_iff)
  then show ?thesis by (simp only: of_int_abs of_int_power of_int_numeral of_int_diff of_int_1)
qed

text \<open>The largest finite binary32 value is \<open>2\<^sup>1\<^sup>2\<^sup>8 - 2\<^sup>1\<^sup>0\<^sup>4\<close>.\<close>

lemma round32_unfold:
  "round32 x =
     (let r = real_of_int (rne (x / pow2 (binade x - 23))) * pow2 (binade x - 23) in
      if 2 ^ 128 \<le> r then PInf else if r \<le> - (2 ^ 128) then NInf else Finite r)"
  by (simp add: round32_def Let_def)

lemma float32_le_max:
  assumes "round32 b = Finite b"
  shows "\<bar>b\<bar> \<le> 2 ^ 128 - 2 ^ 104"
proof -
  define q where "q = pow2 (binade b - 23)"
  define m where "m = rne (b / q)"
  have "round32 b = (if 2 ^ 128 \<le> real_of_int m * q then PInf
      else if real_of_int m * q \<le> - (2 ^ 128) then NInf else Finite (real_of_int m * q))"
    unfolding m_def q_def by (simp only: round32_unfold Let_def)
  with assms have b: "real_of_int m * q = b" and lt: "\<bar>real_of_int m * q\<bar> < 2 ^ 128"
    by (auto split: if_splits)
  show ?thesis
  proof (cases "binade b = 127")
    case True
    then have q: "q = 2 ^ 104" by (simp add: q_def pow2_def)
    from lt have "\<bar>real_of_int m\<bar> * 2 ^ 104 < 2 ^ 24 * 2 ^ 104"
      by (simp add: q abs_mult)
    then have "\<bar>real_of_int m\<bar> < 2 ^ 24" by (simp only: mult_less_cancel_right) simp
    then have "\<bar>real_of_int m\<bar> \<le> 2 ^ 24 - 1" by (rule int_abs_bound)
    then have "\<bar>real_of_int m\<bar> * 2 ^ 104 \<le> (2 ^ 24 - 1) * 2 ^ 104"
      by (intro mult_right_mono) auto
    then have "\<bar>real_of_int m * q\<bar> \<le> 2 ^ 128 - 2 ^ 104" by (simp add: q abs_mult)
    then show ?thesis by (simp only: b)
  next
    case False
    with binade_range [of b] have le: "binade b + 1 \<le> 127" by simp
    from lt have "\<bar>b\<bar> < 2 ^ 128" by (simp only: b)
    then have "\<bar>b\<bar> < pow2 (binade b + 1)"
      by (intro binade_upper) (simp add: pow2_128)
    also have "\<dots> \<le> pow2 127" using le by (rule pow2_mono)
    finally show ?thesis by (simp add: pow2_127)
  qed
qed

lemma round32_finite:
  assumes "\<bar>x\<bar> < 2 ^ 128 - 2 ^ 103"
  shows "\<exists>r. round32 x = Finite r"
proof -
  define q where "q = pow2 (binade x - 23)"
  define m where "m = rne (x / q)"
  have "\<bar>real_of_int m * q\<bar> < 2 ^ 128"
  proof (cases "binade x = 127")
    case True
    then have q: "q = 2 ^ 104" by (simp add: q_def pow2_def)
    have "\<bar>x / q\<bar> < 2 ^ 24 - 1 / 2"
      using assms by (simp add: q field_simps)
    moreover have "\<bar>real_of_int m - x / q\<bar> \<le> 1 / 2"
      unfolding m_def by (rule rne_close)
    ultimately have "\<bar>real_of_int m\<bar> < 2 ^ 24" by linarith
    then have "\<bar>real_of_int m\<bar> \<le> 2 ^ 24 - 1" by (rule int_abs_bound)
    then have "\<bar>real_of_int m\<bar> * 2 ^ 104 \<le> (2 ^ 24 - 1) * 2 ^ 104"
      by (intro mult_right_mono) auto
    then show ?thesis by (simp add: q abs_mult)
  next
    case False
    with binade_range [of x] have le: "binade x + 1 \<le> 127" by simp
    have q24: "2 ^ 24 * q = pow2 (binade x + 1)"
    proof -
      have "binade x + 1 = 24 + (binade x - 23)" by simp
      then have "pow2 (binade x + 1) = pow2 (24 + (binade x - 23))" by (rule arg_cong)
      also have "\<dots> = pow2 24 * q" unfolding q_def by (rule pow2_add)
      finally show ?thesis by (simp add: pow2_def)
    qed
    have "\<bar>x\<bar> < pow2 (binade x + 1)"
      using assms by (intro binade_upper) (simp add: pow2_128)
    then have "\<bar>x\<bar> < 2 ^ 24 * q" by (simp only: q24)
    moreover have "0 < q" by (simp add: q_def)
    ultimately have xq: "\<bar>x / q\<bar> < 2 ^ 24"
      by (simp add: pos_divide_less_eq)
    have "x / q \<le> \<bar>x / q\<bar>" "- \<bar>x / q\<bar> \<le> x / q" by linarith+
    with xq have "x / q \<le> real_of_int (2 ^ 24)" "real_of_int (- (2 ^ 24)) \<le> x / q"
      by simp_all
    then have "m \<le> 2 ^ 24" "- (2 ^ 24) \<le> m"
      unfolding m_def by (auto intro: rne_upper rne_lower simp del: of_int_numeral of_int_power)
    then have "\<bar>m\<bar> \<le> 2 ^ 24" by simp
    then have "real_of_int \<bar>m\<bar> \<le> real_of_int (2 ^ 24)" by (simp only: of_int_le_iff)
    then have "\<bar>real_of_int m\<bar> \<le> 2 ^ 24" by simp
    then have "\<bar>real_of_int m\<bar> * q \<le> 2 ^ 24 * q"
      by (intro mult_right_mono) (auto simp: q_def less_imp_le)
    also have "\<dots> \<le> pow2 127" unfolding q24 using le by (rule pow2_mono)
    finally have "\<bar>real_of_int m\<bar> * q \<le> 2 ^ 127" by (simp add: pow2_127)
    moreover have "\<bar>q\<bar> = q" unfolding q_def by (rule abs_of_pos) simp
    ultimately show ?thesis by (simp add: abs_mult)
  qed
  then have "\<not> 2 ^ 128 \<le> real_of_int m * q" "\<not> real_of_int m * q \<le> - (2 ^ 128)"
    by linarith+
  then show ?thesis
    by (simp add: round32_def Let_def q_def [symmetric] m_def [symmetric])
qed

lemma fsub_finite32:
  assumes "\<bar>a\<bar> \<le> 1" and "round32 b = Finite b"
  shows "\<exists>r. fsub (Finite a) (Finite b) = Finite r"
proof -
  from float32_le_max [OF assms(2)] assms(1)
  have "\<bar>a - b\<bar> < 2 ^ 128 - 2 ^ 103" by simp
  then show ?thesis by (simp add: round32_finite)
qed

section \<open>Properties of the conversions\<close>

lemma sint16_bounds: "- 32768 \<le> sint (s :: int16)" "sint (s :: int16) \<le> 32767"
  using sint_ge [of s] sint_lt [of s] by simp_all

lemma sint16_real_bound: "\<bar>real_of_int (sint (s :: int16))\<bar> < 2 ^ 24"
proof -
  have "\<bar>sint s\<bar> < 2 ^ 24" using sint16_bounds [of s] by simp
  then have "real_of_int \<bar>sint s\<bar> < real_of_int (2 ^ 24)" by (simp only: of_int_less_iff)
  then show ?thesis by (simp only: of_int_abs of_int_power of_int_numeral)
qed

lemma float_of_s16_exact: "float_of_s16 s = Finite (real_of_int (sint s))"
  using round32_grid_exact [of 0, OF _ sint16_real_bound [of s]]
  by (simp add: float_of_s16_def del: of_int_sint)

lemma s16_to_float_exact: "s16_to_float s = Finite (real_of_int (sint s) / 32768)"
  using round32_grid_exact [of 15, OF _ sint16_real_bound [of s]]
  by (simp add: s16_to_float_def float_of_s16_exact del: of_int_sint)

lemma sint16_unit: "- 1 \<le> real_of_int (sint (s :: int16)) / 32768"
  "real_of_int (sint (s :: int16)) / 32768 < 1"
proof -
  have "real_of_int (- 32768) \<le> real_of_int (sint s)"
    "real_of_int (sint s) \<le> real_of_int 32767"
    using sint16_bounds [of s] by (simp_all only: of_int_le_iff)
  then show "- 1 \<le> real_of_int (sint s) / 32768" "real_of_int (sint s) / 32768 < 1"
    by (simp_all del: of_int_sint)
qed

lemma c_trunc_range:
  assumes "- 32768 < x" "x < 32767"
  shows "- 32768 \<le> c_trunc x \<and> c_trunc x \<le> 32767"
  using assms unfolding c_trunc_def by (auto simp: le_floor_iff floor_le_iff ceiling_le_iff le_ceiling_iff)

lemma float_to_s16_defined:
  assumes "x \<noteq> NaN"
  shows "\<exists>v. float_to_s16 x = Some v"
proof (cases x)
  case (Finite a)
  show ?thesis
  proof (cases "round32 (a * 32767)")
    case (Finite r)
    then show ?thesis
      using c_trunc_range [of r] \<open>x = Finite a\<close>
      by (auto simp: float_to_s16_def fge_def Let_def)
  qed (simp_all add: float_to_s16_def fge_def Let_def \<open>x = Finite a\<close>)
qed (use assms in \<open>simp_all add: float_to_s16_def fge_def\<close>)

lemma float_to_s16_NaN: "float_to_s16 NaN = None"
  by (simp add: float_to_s16_def fge_def)

lemma float_to_s16_zero: "float_to_s16 (Finite 0) = Some 0"
proof -
  have "round32 0 = Finite 0" using round32_grid_exact [of 0 0] by simp
  then show ?thesis by (simp add: float_to_s16_def fge_def c_trunc_def)
qed

section \<open>Properties of the processing of one sample\<close>

lemma clamp_Finite: "clamp (Finite r) = Finite (if 1 < r then 1 else if r < - 1 then - 1 else r)"
  by (simp add: clamp_def fgt_def Let_def)

lemma clamp_simps [simp]: "clamp PInf = Finite 1" "clamp NInf = Finite (- 1)" "clamp NaN = NaN"
  by (simp_all add: clamp_def fgt_def Let_def)

lemma clamp_NaN_iff: "clamp x = NaN \<longleftrightarrow> x = NaN"
  by (cases x) (simp_all add: clamp_Finite)

lemma round32_zero: "round32 0 = Finite 0"
  using round32_grid_exact [of 0 0] by simp

lemma fsub_Finite_not_NaN: "y \<noteq> NaN \<Longrightarrow> fsub (Finite a) y \<noteq> NaN"
  by (cases y) simp_all

lemma blend_not_NaN:
  assumes "\<bar>a\<bar> \<le> 1" and "round32 b = Finite b"
  shows "blend fp_contract (Finite s) (Finite a) (Finite b) \<noteq> NaN"
proof -
  from fsub_finite32 [OF assms] obtain c where c: "fsub (Finite a) (Finite b) = Finite c" ..
  have "fsub (Finite a) (fmul (Finite c) (Finite s)) \<noteq> NaN"
    by (rule fsub_Finite_not_NaN) simp
  moreover have "fused_sub_mul (Finite a) (Finite c) (Finite s) \<noteq> NaN" by simp
  ultimately show ?thesis
    unfolding blend_def Let_def c by simp
qed

lemma enhance_sample_not_NaN:
  assumes "\<bar>a\<bar> \<le> 1" and "round32 b = Finite b"
  shows "enhance_sample fp_contract (Finite s) thr g (Finite a) (Finite b) \<noteq> NaN"
  using blend_not_NaN [OF assms, where s = s and fp_contract = fp_contract]
  by (simp add: enhance_sample_def Let_def clamp_NaN_iff clamp_Finite)

lemma enhance_sample_defined:
  assumes "is_finite strength" and "finite32 d"
  shows "\<exists>v. float_to_s16 (enhance_sample fp_contract strength thr g (s16_to_float x) d) = Some v"
proof -
  from assms obtain s b where sb: "strength = Finite s" "d = Finite b" "round32 b = Finite b"
    by (cases strength; cases d) (simp_all add: finite32_def)
  have "\<bar>real_of_int (sint x) / 32768\<bar> \<le> 1"
    using sint16_unit [of x] by linarith
  from enhance_sample_not_NaN [OF this sb(3)]
  have "enhance_sample fp_contract strength thr g (s16_to_float x) d \<noteq> NaN"
    by (simp add: sb s16_to_float_exact del: of_int_sint)
  then show ?thesis by (rule float_to_s16_defined)
qed

text \<open>The gate.\<close>

lemma enhance_sample_gated:
  assumes "flt (fabs (blend fp_contract strength original denoised)) thr"
  shows "float_to_s16 (enhance_sample fp_contract strength thr True original denoised) = Some 0"
  using assms by (simp add: enhance_sample_def clamp_Finite float_to_s16_zero)

text \<open>Strength 1: when the subtraction is exact, the blend is the denoised sample.\<close>

lemma blend_one_exact:
  assumes "round32 b = Finite b" and "fsub (Finite a) (Finite b) = Finite (a - b)"
  shows "blend fp_contract (Finite 1) (Finite a) (Finite b) = Finite b"
  using assms by (simp add: blend_def Let_def)

lemma float_to_s16_Finite:
  assumes "round32 (a * 32767) = Finite r"
  shows "float_to_s16 (Finite a) =
    (if 32767 \<le> r then Some 32767 else if r \<le> - 32768 then Some (- 32768)
     else Some (word_of_int (c_trunc r)))"
  using assms c_trunc_range [of r]
  by (auto simp: float_to_s16_def fge_def Let_def)

lemma sint_word_of_int16:
  assumes "- 32768 \<le> t" "t \<le> 32767"
  shows "sint (word_of_int t :: int16) = t"
  using assms by (simp add: sint_sbintrunc' signed_take_bit_int_eq_self)

lemma c_trunc_nonneg: "0 \<le> x \<Longrightarrow> c_trunc x = \<lfloor>x\<rfloor>"
  by (simp add: c_trunc_def)

lemma c_trunc_nonpos: "x \<le> 0 \<Longrightarrow> c_trunc x = \<lceil>x\<rceil>"
  by (cases "x = 0") (simp_all add: c_trunc_def)

text \<open>A sample that goes through both conversions moves by at most one, towards zero.\<close>

lemma requantize_near:
  fixes s :: int16
  defines "n \<equiv> sint s"
  shows "\<exists>v. float_to_s16 (Finite (real_of_int n / 32768)) = Some v \<and>
    (0 \<le> n \<longrightarrow> n - 1 \<le> sint v \<and> sint v \<le> n \<and> 0 \<le> sint v) \<and>
    (n \<le> 0 \<longrightarrow> n \<le> sint v \<and> sint v \<le> n + 1 \<and> sint v \<le> 0)"
proof -
  define x where "x = real_of_int n / 32768 * 32767"
  have nb: "- 32768 \<le> n" "n \<le> 32767" using sint16_bounds [of s] by (simp_all add: n_def)
  then have rb: "real_of_int (- 32768) \<le> real_of_int n" "real_of_int n \<le> real_of_int 32767"
    by (simp_all only: of_int_le_iff)
  then have xb: "\<bar>x\<bar> * 2 ^ 0 < 2 ^ 24" by (simp add: x_def)
  show ?thesis
  proof (cases "0 \<le> n")
    case True
    then have "real_of_int 0 \<le> real_of_int n" by (simp only: of_int_le_iff)
    then have x: "real_of_int 0 / 2 ^ 0 \<le> x" "real_of_int (n - 1) / 2 ^ 0 \<le> x"
      "x \<le> real_of_int n / 2 ^ 0"
      using rb by (simp_all add: x_def)
    from round32_grid_lower [OF _ xb x(1)] obtain r where r: "round32 x = Finite r" "0 \<le> r"
      by auto
    from round32_grid_lower [OF _ xb x(2)] round32_grid_upper [OF _ xb x(3)] r(1)
    have r2: "real_of_int (n - 1) \<le> r" "r \<le> real_of_int n" by auto
    define t where "t = \<lfloor>r\<rfloor>"
    from r2 r(2) have fl: "n - 1 \<le> t" "t \<le> n" "0 \<le> t"
      unfolding t_def by (simp_all add: le_floor_iff floor_le_iff)
    have n32767: "n = 32767" if "32767 \<le> r"
    proof -
      from that r2(2) have "real_of_int 32767 \<le> real_of_int n" by simp
      then have "32767 \<le> n" by (simp only: of_int_le_iff)
      with nb show ?thesis by simp
    qed
    have "float_to_s16 (Finite (real_of_int n / 32768)) =
        (if 32767 \<le> r then Some 32767 else Some (word_of_int t))"
      using float_to_s16_Finite [of "real_of_int n / 32768" r] r
      by (simp add: x_def c_trunc_nonneg t_def)
    then show ?thesis
      using True fl nb n32767 by (auto simp: sint_word_of_int16)
  next
    case False
    then have "real_of_int n \<le> real_of_int 0" by (simp only: of_int_le_iff)
    then have x: "x \<le> real_of_int 0 / 2 ^ 0" "real_of_int n / 2 ^ 0 \<le> x"
      "x \<le> real_of_int (n + 1) / 2 ^ 0"
      using rb by (simp_all add: x_def)
    from round32_grid_upper [OF _ xb x(1)] obtain r where r: "round32 x = Finite r" "r \<le> 0"
      by auto
    from round32_grid_lower [OF _ xb x(2)] round32_grid_upper [OF _ xb x(3)] r(1)
    have r2: "real_of_int n \<le> r" "r \<le> real_of_int (n + 1)" by auto
    define t where "t = \<lceil>r\<rceil>"
    from r2 r(2) have cl: "n \<le> t" "t \<le> n + 1" "t \<le> 0"
      unfolding t_def by (simp_all add: le_ceiling_iff ceiling_le_iff)
    have nmin: "n = - 32768" if "r \<le> - 32768"
    proof -
      from that r2(1) have "real_of_int n \<le> real_of_int (- 32768)" by simp
      then have "n \<le> - 32768" by (simp only: of_int_le_iff)
      with nb show ?thesis by simp
    qed
    have "float_to_s16 (Finite (real_of_int n / 32768)) =
        (if r \<le> - 32768 then Some (- 32768) else Some (word_of_int t))"
      using float_to_s16_Finite [of "real_of_int n / 32768" r] r
      by (simp add: x_def c_trunc_nonpos t_def)
    then show ?thesis
      using False cl nb nmin by (auto simp: sint_word_of_int16)
  qed
qed

section \<open>Properties of the loops over a frame\<close>

text \<open>Strength 0 without the gate: the blend is the original sample.\<close>

lemma enhance_sample_zero_strength:
  assumes "finite32 d"
  shows "enhance_sample fp_contract (Finite 0) thr False (s16_to_float x) d = s16_to_float x"
proof -
  from assms obtain b where b: "d = Finite b" "round32 b = Finite b"
    by (cases d) (simp_all add: finite32_def)
  define a where "a = real_of_int (sint x) / 32768"
  have a: "- 1 \<le> a" "a < 1" using sint16_unit [of x] by (simp_all add: a_def)
  then have "\<bar>a\<bar> \<le> 1" by linarith
  from fsub_finite32 [OF this b(2)] obtain c where c: "fsub (Finite a) (Finite b) = Finite c" ..
  have ra: "round32 a = Finite a"
    using round32_grid_exact [of 15, OF _ sint16_real_bound [of x]] by (simp add: a_def)
  have "blend fp_contract (Finite 0) (Finite a) (Finite b) = Finite a"
    unfolding blend_def Let_def c by (simp add: round32_zero ra)
  then show ?thesis
    using a by (simp add: enhance_sample_def Let_def s16_to_float_exact a_def [symmetric] b
        clamp_Finite del: of_int_sint)
qed

lemma position_inj:
  assumes "0 < ch" "0 \<le> k" "0 \<le> k'" "position ch k = position ch k'"
  shows "k = k'"
proof -
  from assms(1-3) have "0 \<le> k * ch" "0 \<le> k' * ch" by simp_all
  with assms(4) have "k * ch = k' * ch" unfolding position_def by linarith
  with assms(1) show ?thesis by simp
qed

lemma position_less:
  assumes "0 < ch" "0 \<le> k" "k < k'"
  shows "position ch k < position ch k'"
proof -
  from assms have "k * ch < k' * ch" by simp
  moreover from assms have "0 \<le> k * ch" by simp
  ultimately show ?thesis by (simp add: position_def)
qed

lemma deinterleave_eq:
  "deinterleave samples fs ch idxs =
     (if \<forall>i\<in>set idxs. 0 \<le> (fs + int i) * ch \<and> (fs + int i) * ch < int (length samples)
      then Some (map (\<lambda>i. s16_to_float (samples ! position ch (fs + int i))) idxs)
      else None)"
  by (induction idxs) (auto simp: load16_def position_def)

lemma interleave_length:
  "interleave samples fs ch fo idxs = Some res \<Longrightarrow> length res = length samples"
  by (induction idxs arbitrary: samples)
     (auto simp: store16_def split: option.splits if_splits)

lemma interleave_other:
  "interleave samples fs ch fo idxs = Some res \<Longrightarrow>
   p \<notin> (\<lambda>i. position ch (fs + int i)) ` set idxs \<Longrightarrow> res ! p = samples ! p"
  by (induction idxs arbitrary: samples)
     (auto simp: store16_def position_def split: option.splits if_splits)

lemma interleave_bounds:
  "interleave samples fs ch fo idxs = Some res \<Longrightarrow> i \<in> set idxs \<Longrightarrow>
   0 \<le> (fs + int i) * ch \<and> (fs + int i) * ch < int (length samples)"
proof (induction idxs arbitrary: samples)
  case Nil
  then show ?case by simp
next
  case (Cons j idxs)
  from Cons.prems(1) obtain v s' where
    s': "store16 samples ((fs + int j) * ch) v = Some s'"
    and rest: "interleave s' fs ch fo idxs = Some res"
    by (auto split: option.splits)
  from s' have j: "0 \<le> (fs + int j) * ch \<and> (fs + int j) * ch < int (length samples)"
    and len: "length s' = length samples"
    by (auto simp: store16_def split: if_splits)
  show ?case
  proof (cases "i = j")
    case True
    with j show ?thesis by simp
  next
    case False
    with Cons.prems(2) have "i \<in> set idxs" by simp
    from Cons.IH [OF rest this] len show ?thesis by simp
  qed
qed

lemma interleave_written:
  "interleave samples fs ch fo idxs = Some res \<Longrightarrow>
   distinct (map (\<lambda>i. position ch (fs + int i)) idxs) \<Longrightarrow> i \<in> set idxs \<Longrightarrow>
   float_to_s16 (fo ! i) = Some (res ! position ch (fs + int i))"
proof (induction idxs arbitrary: samples)
  case Nil
  then show ?case by simp
next
  case (Cons j idxs)
  from Cons.prems(1) obtain v s' where
    v: "float_to_s16 (fo ! j) = Some v"
    and s': "store16 samples ((fs + int j) * ch) v = Some s'"
    and rest: "interleave s' fs ch fo idxs = Some res"
    by (auto split: option.splits)
  from Cons.prems(2) have d: "distinct (map (\<lambda>i. position ch (fs + int i)) idxs)"
    and nj: "position ch (fs + int j) \<notin> (\<lambda>i. position ch (fs + int i)) ` set idxs"
    by simp_all
  show ?case
  proof (cases "i = j")
    case True
    from interleave_other [OF rest nj]
    have "res ! position ch (fs + int j) = s' ! position ch (fs + int j)" .
    also from s' have "\<dots> = v"
      by (auto simp: store16_def position_def split: if_splits)
    finally show ?thesis using v True by simp
  next
    case False
    with Cons.prems(3) have "i \<in> set idxs" by simp
    from Cons.IH [OF rest d this] show ?thesis .
  qed
qed

lemma interleave_defined:
  "\<forall>i\<in>set idxs. float_to_s16 (fo ! i) \<noteq> None \<and>
     0 \<le> (fs + int i) * ch \<and> (fs + int i) * ch < int (length samples) \<Longrightarrow>
   \<exists>res. interleave samples fs ch fo idxs = Some res"
proof (induction idxs arbitrary: samples)
  case Nil
  then show ?case by simp
next
  case (Cons j idxs)
  from Cons.prems obtain v where v: "float_to_s16 (fo ! j) = Some v" by auto
  from Cons.prems have
    s': "store16 samples ((fs + int j) * ch) v = Some (samples[nat ((fs + int j) * ch) := v])"
    by (simp add: store16_def)
  have "\<exists>res. interleave (samples[nat ((fs + int j) * ch) := v]) fs ch fo idxs = Some res"
    using Cons.prems by (intro Cons.IH) simp
  with v s' show ?case by simp
qed

lemma interleave_cong:
  "\<forall>i\<in>set idxs. fo ! i = fo' ! i \<Longrightarrow>
   interleave samples fs ch fo idxs = interleave samples fs ch fo' idxs"
  by (induction idxs arbitrary: samples) (auto split: option.splits)

lemma process_frame_eq:
  "process_frame fp_contract eng s thr g ch st samples fs n =
     (if \<forall>i<nat n. 0 \<le> (fs + int i) * ch \<and> (fs + int i) * ch < int (length samples)
      then
        (let fi = frame_input samples fs ch n; r = eng st fi
         in map_option (Pair (fst r))
              (interleave samples fs ch
                 (map (\<lambda>i. enhance_sample fp_contract s thr g (fi ! i) (snd r i))
                    [0..<nat RNNOISE_FRAME_SIZE])
                 [0..<nat n]))
      else None)"
  by (auto simp: process_frame_def deinterleave_eq frame_input_def Let_def
      split: prod.splits)

lemma frame_input_nth:
  "i < nat n \<Longrightarrow>
   frame_input samples fs ch n ! i = s16_to_float (samples ! position ch (fs + int i))"
  by (simp add: frame_input_def nth_append)

lemma distinct_positions:
  assumes "0 < ch" "0 \<le> fs"
  shows "distinct (map (\<lambda>i. position ch (fs + int i)) [0..<m])"
proof -
  have "inj_on (\<lambda>i. position ch (fs + int i)) (set [0..<m])"
  proof (rule inj_onI)
    fix i j
    assume "position ch (fs + int i) = position ch (fs + int j)"
    with position_inj [OF assms(1), of "fs + int i" "fs + int j"] assms(2)
    show "i = j" by simp
  qed
  then show ?thesis by (simp add: distinct_map)
qed

text \<open>What one frame does to the buffer and to the state of the denoiser.\<close>

lemma process_frame_Some:
  assumes ok: "process_frame fp_contract eng s thr g ch st samples fs n = Some (st', res)"
    and ch: "0 < ch" and fs: "0 \<le> fs" and n: "0 < n" "n \<le> RNNOISE_FRAME_SIZE"
  shows "st' = fst (eng st (frame_input samples fs ch n))"
    and "length res = length samples"
    and "\<And>p. \<forall>k. fs \<le> k \<and> k < fs + n \<longrightarrow> p \<noteq> position ch k \<Longrightarrow> res ! p = samples ! p"
    and "\<And>k. fs \<le> k \<Longrightarrow> k < fs + n \<Longrightarrow>
           float_to_s16 (enhance_sample fp_contract s thr g (s16_to_float (samples ! position ch k))
             (snd (eng st (frame_input samples fs ch n)) (nat (k - fs))))
           = Some (res ! position ch k)"
    and "\<And>k. fs \<le> k \<Longrightarrow> k < fs + n \<Longrightarrow> position ch k < length samples"
proof -
  define fi where "fi = frame_input samples fs ch n"
  define fo where "fo = map (\<lambda>i. enhance_sample fp_contract s thr g (fi ! i) (snd (eng st fi) i))
    [0..<nat RNNOISE_FRAME_SIZE]"
  from ok have inb: "\<forall>i<nat n. 0 \<le> (fs + int i) * ch \<and> (fs + int i) * ch < int (length samples)"
    and st': "st' = fst (eng st fi)"
    and il: "interleave samples fs ch fo [0..<nat n] = Some res"
    by (auto simp: process_frame_eq Let_def fi_def fo_def split: if_splits)
  show "st' = fst (eng st (frame_input samples fs ch n))" using st' by (simp add: fi_def)
  show "length res = length samples" using il by (rule interleave_length)
  show "res ! p = samples ! p" if "\<forall>k. fs \<le> k \<and> k < fs + n \<longrightarrow> p \<noteq> position ch k" for p
  proof (rule interleave_other [OF il])
    show "p \<notin> (\<lambda>i. position ch (fs + int i)) ` set [0..<nat n]"
    proof
      assume "p \<in> (\<lambda>i. position ch (fs + int i)) ` set [0..<nat n]"
      then obtain i where "i < nat n" "p = position ch (fs + int i)" by auto
      moreover from \<open>i < nat n\<close> have "int i < n" by simp
      ultimately show False using that [rule_format, of "fs + int i"] by simp
    qed
  qed
  show "float_to_s16 (enhance_sample fp_contract s thr g (s16_to_float (samples ! position ch k))
             (snd (eng st (frame_input samples fs ch n)) (nat (k - fs))))
           = Some (res ! position ch k)" if "fs \<le> k" "k < fs + n" for k
  proof -
    define i where "i = nat (k - fs)"
    from that have i: "i < nat n" "k = fs + int i" by (auto simp: i_def)
    with n have i480: "i < nat RNNOISE_FRAME_SIZE" by simp
    have "i \<in> set [0..<nat n]" using i by simp
    from interleave_written [OF il distinct_positions [OF ch fs] this]
    have "float_to_s16 (fo ! i) = Some (res ! position ch (fs + int i))" .
    moreover have "fo ! i = enhance_sample fp_contract s thr g (fi ! i) (snd (eng st fi) i)"
      using i480 by (simp add: fo_def)
    moreover have "fi ! i = s16_to_float (samples ! position ch (fs + int i))"
      unfolding fi_def using i(1) by (rule frame_input_nth)
    ultimately show ?thesis by (simp add: i(2) fi_def)
  qed
  show "position ch k < length samples" if "fs \<le> k" "k < fs + n" for k
  proof -
    define i where "i = nat (k - fs)"
    from that have i: "i < nat n" "k = fs + int i" by (auto simp: i_def)
    with inb show ?thesis by (auto simp: position_def)
  qed
qed

lemma process_frame_defined:
  assumes ch: "0 < ch" and fs: "0 \<le> fs" and n: "0 < n" "n \<le> RNNOISE_FRAME_SIZE"
    and inb: "(fs + n - 1) * ch < int (length samples)"
    and conv: "\<And>k. fs \<le> k \<Longrightarrow> k < fs + n \<Longrightarrow>
           float_to_s16 (enhance_sample fp_contract s thr g (s16_to_float (samples ! position ch k))
             (snd (eng st (frame_input samples fs ch n)) (nat (k - fs)))) \<noteq> None"
  shows "\<exists>st' res. process_frame fp_contract eng s thr g ch st samples fs n = Some (st', res)"
proof -
  define fi where "fi = frame_input samples fs ch n"
  define fo where "fo = map (\<lambda>i. enhance_sample fp_contract s thr g (fi ! i) (snd (eng st fi) i))
    [0..<nat RNNOISE_FRAME_SIZE]"
  have b: "0 \<le> (fs + int i) * ch \<and> (fs + int i) * ch < int (length samples)" if "i < nat n" for i
  proof -
    from that have "fs + int i \<le> fs + n - 1" by simp
    with ch have "(fs + int i) * ch \<le> (fs + n - 1) * ch" by (intro mult_right_mono) simp_all
    moreover from fs ch have "0 \<le> (fs + int i) * ch" by simp
    ultimately show ?thesis using inb by simp
  qed
  have "\<exists>res. interleave samples fs ch fo [0..<nat n] = Some res"
  proof (rule interleave_defined, rule ballI)
    fix i assume "i \<in> set [0..<nat n]"
    then have i: "i < nat n" by simp
    with n have i480: "i < nat RNNOISE_FRAME_SIZE" by simp
    have "fo ! i = enhance_sample fp_contract s thr g (s16_to_float (samples ! position ch (fs + int i)))
        (snd (eng st fi) i)"
      using i480 frame_input_nth [OF i, of samples fs ch] by (simp add: fo_def fi_def)
    moreover from conv [of "fs + int i"] i
    have "float_to_s16 (enhance_sample fp_contract s thr g (s16_to_float (samples ! position ch (fs + int i)))
        (snd (eng st fi) i)) \<noteq> None" by (simp add: fi_def)
    ultimately show "float_to_s16 (fo ! i) \<noteq> None \<and>
        0 \<le> (fs + int i) * ch \<and> (fs + int i) * ch < int (length samples)"
      using b [OF i] by simp
  qed
  then show ?thesis using b
    by (auto simp: process_frame_eq Let_def fi_def fo_def)
qed

section \<open>Properties of the loop over the frames\<close>

declare frames_loop.simps [simp del] denoised_from.simps [simp del] state_from.simps [simp del]

lemma frame_input_cong:
  assumes "\<And>k. fs \<le> k \<Longrightarrow> cur ! position ch k = orig ! position ch k"
  shows "frame_input cur fs ch n = frame_input orig fs ch n"
  using assms by (simp add: frame_input_def)

lemma denoised_from_cong:
  "(\<And>j. fs \<le> j \<Longrightarrow> cur ! position ch j = orig ! position ch j) \<Longrightarrow>
   denoised_from eng ch spc st cur fs k = denoised_from eng ch spc st orig fs k"
proof (induction eng ch spc st cur fs k rule: denoised_from.induct)
  case (1 eng ch spc st cur fs k)
  define n where "n = min RNNOISE_FRAME_SIZE (spc - fs)"
  have fi: "frame_input cur fs ch n = frame_input orig fs ch n"
    using "1.prems" by (rule frame_input_cong)
  obtain st1 den where r: "eng st (frame_input orig fs ch n) = (st1, den)" by (cases "eng st (frame_input orig fs ch n)")
  show ?case
  proof (cases "k < fs + RNNOISE_FRAME_SIZE")
    case True
    then show ?thesis
      by (simp add: denoised_from.simps [of _ _ _ _ _ fs] n_def [symmetric] fi r)
  next
    case False
    have "denoised_from eng ch spc st1 cur (fs + RNNOISE_FRAME_SIZE) k =
        denoised_from eng ch spc st1 orig (fs + RNNOISE_FRAME_SIZE) k"
    proof (rule "1.IH" [OF n_def _ refl False])
      show "(st1, den) = eng st (frame_input cur fs ch n)" by (simp add: fi r)
      fix j assume "fs + RNNOISE_FRAME_SIZE \<le> j"
      then have "fs \<le> j" by (simp add: RNNOISE_FRAME_SIZE_def)
      then show "cur ! position ch j = orig ! position ch j" by (rule "1.prems")
    qed
    with False show ?thesis
      by (simp add: denoised_from.simps [of _ _ _ _ _ fs] n_def [symmetric] fi r)
  qed
qed

lemma state_from_cong:
  "(\<And>j. fs \<le> j \<Longrightarrow> cur ! position ch j = orig ! position ch j) \<Longrightarrow>
   state_from eng ch spc st cur fs = state_from eng ch spc st orig fs"
proof (induction eng ch spc st cur fs rule: state_from.induct)
  case (1 eng ch spc st cur fs)
  define n where "n = min RNNOISE_FRAME_SIZE (spc - fs)"
  have fi: "frame_input cur fs ch n = frame_input orig fs ch n"
    using "1.prems" by (rule frame_input_cong)
  show ?case
  proof (cases "fs < spc")
    case True
    have "state_from eng ch spc (fst (eng st (frame_input cur fs ch n))) cur
            (fs + RNNOISE_FRAME_SIZE) =
          state_from eng ch spc (fst (eng st (frame_input cur fs ch n))) orig
            (fs + RNNOISE_FRAME_SIZE)"
      unfolding n_def
    proof (rule "1.IH" [OF True])
      fix j assume "fs + RNNOISE_FRAME_SIZE \<le> j"
      then have "fs \<le> j" by (simp add: RNNOISE_FRAME_SIZE_def)
      then show "cur ! position ch j = orig ! position ch j" by (rule "1.prems")
    qed
    with True show ?thesis
      by (simp add: state_from.simps [of _ _ _ _ _ fs] n_def [symmetric] fi)
  next
    case False
    then show ?thesis by (simp add: state_from.simps [of _ _ _ _ _ fs])
  qed
qed

text \<open>The loop over the frames, when it returns.\<close>

lemma frames_loop_Some:
  "frames_loop fp_contract eng s thr g ch spc st cur fs = Some (st', res) \<Longrightarrow> 0 < ch \<Longrightarrow> 0 \<le> fs \<Longrightarrow>
   length res = length cur \<and>
   st' = state_from eng ch spc st cur fs \<and>
   (\<forall>p. (\<forall>k. fs \<le> k \<and> k < spc \<longrightarrow> p \<noteq> position ch k) \<longrightarrow> res ! p = cur ! p) \<and>
   (\<forall>k. fs \<le> k \<and> k < spc \<longrightarrow>
      float_to_s16 (enhance_sample fp_contract s thr g (s16_to_float (cur ! position ch k))
        (denoised_from eng ch spc st cur fs k)) = Some (res ! position ch k) \<and>
      position ch k < length cur)"
proof (induction fp_contract eng s thr g ch spc st cur fs arbitrary: st' res rule: frames_loop.induct)
  case (1 fp_contract eng s thr g ch spc st cur fs)
  note ch = \<open>0 < ch\<close> and fs = \<open>0 \<le> fs\<close>
  show ?case
  proof (cases "fs < spc")
    case False
    with "1.prems"(1) show ?thesis
      by (auto simp: frames_loop.simps [of _ _ _ _ _ _ _ _ _ fs] state_from.simps [of _ _ _ _ _ fs])
  next
    case True
    define n where "n = min RNNOISE_FRAME_SIZE (spc - fs)"
    from True have n: "0 < n" "n \<le> RNNOISE_FRAME_SIZE" "\<not> n \<le> 0"
      by (simp_all add: n_def RNNOISE_FRAME_SIZE_def)
    from "1.prems"(1) True n obtain st1 cur1 where
      pf: "process_frame fp_contract eng s thr g ch st cur fs n = Some (st1, cur1)"
      and ov: "\<not> INT_MAX < fs + RNNOISE_FRAME_SIZE"
      and rest: "frames_loop fp_contract eng s thr g ch spc st1 cur1 (fs + RNNOISE_FRAME_SIZE) = Some (st', res)"
      by (auto simp: frames_loop.simps [of _ _ _ _ _ _ _ _ _ fs] n_def [symmetric]
          split: option.splits if_splits)
    note F = process_frame_Some [OF pf ch fs n(1,2)]
    have fs': "0 \<le> fs + RNNOISE_FRAME_SIZE" using fs by (simp add: RNNOISE_FRAME_SIZE_def)
    from "1.IH" [OF True n_def n(3) pf refl ov rest ch fs']
    have I1: "length res = length cur1"
      and I2: "st' = state_from eng ch spc st1 cur1 (fs + RNNOISE_FRAME_SIZE)"
      and I3: "\<And>p. (\<forall>k. fs + RNNOISE_FRAME_SIZE \<le> k \<and> k < spc \<longrightarrow> p \<noteq> position ch k)
                 \<Longrightarrow> res ! p = cur1 ! p"
      and I4: "\<And>k. fs + RNNOISE_FRAME_SIZE \<le> k \<Longrightarrow> k < spc \<Longrightarrow>
          float_to_s16 (enhance_sample fp_contract s thr g (s16_to_float (cur1 ! position ch k))
            (denoised_from eng ch spc st1 cur1 (fs + RNNOISE_FRAME_SIZE) k))
          = Some (res ! position ch k)"
      by simp_all
    have before: "position ch k \<noteq> position ch k'"
      if "fs \<le> k" "k < fs + n" "fs + RNNOISE_FRAME_SIZE \<le> k'" for k k'
    proof -
      from that n(2) have "k < k'" by simp
      from position_less [OF ch _ this] fs that(1) show ?thesis by simp
    qed
    have later: "cur1 ! position ch j = cur ! position ch j" if "fs + RNNOISE_FRAME_SIZE \<le> j" for j
    proof (rule F(3), intro allI impI)
      fix k assume "fs \<le> k \<and> k < fs + n"
      with before [of k j] that show "position ch j \<noteq> position ch k" by auto
    qed
    have in_frame: "k < fs + n" if "fs \<le> k" "k < spc" "k < fs + RNNOISE_FRAME_SIZE" for k
      using that by (simp add: n_def)
    have st1: "st1 = fst (eng st (frame_input cur fs ch n))" by (rule F(1))
    have len: "length res = length cur" using I1 F(2) by simp
    have state: "st' = state_from eng ch spc st cur fs"
    proof -
      have "state_from eng ch spc st1 cur1 (fs + RNNOISE_FRAME_SIZE) =
          state_from eng ch spc st1 cur (fs + RNNOISE_FRAME_SIZE)"
        by (rule state_from_cong) (rule later)
      with I2 True show ?thesis
        by (simp add: state_from.simps [of _ _ _ _ _ fs] n_def [symmetric] st1)
    qed
    have other: "res ! p = cur ! p" if "\<forall>k. fs \<le> k \<and> k < spc \<longrightarrow> p \<noteq> position ch k" for p
    proof -
      have "res ! p = cur1 ! p"
        using that by (intro I3) (auto simp: RNNOISE_FRAME_SIZE_def)
      also have "\<dots> = cur ! p"
        using that by (intro F(3)) (auto simp: n_def)
      finally show ?thesis .
    qed
    have conv: "float_to_s16 (enhance_sample fp_contract s thr g (s16_to_float (cur ! position ch k))
          (denoised_from eng ch spc st cur fs k)) = Some (res ! position ch k) \<and>
        position ch k < length cur" if k: "fs \<le> k" "k < spc" for k
    proof (cases "k < fs + RNNOISE_FRAME_SIZE")
      case True
      from in_frame [OF k True] have kn: "k < fs + n" .
      have "res ! position ch k = cur1 ! position ch k"
      proof (rule I3, intro allI impI)
        fix k' assume "fs + RNNOISE_FRAME_SIZE \<le> k' \<and> k' < spc"
        with before [OF k(1) kn, of k'] show "position ch k \<noteq> position ch k'" by simp
      qed
      moreover have "denoised_from eng ch spc st cur fs k =
          snd (eng st (frame_input cur fs ch n)) (nat (k - fs))"
        using True by (simp add: denoised_from.simps [of _ _ _ _ _ fs] n_def [symmetric]
            split: prod.splits)
      ultimately show ?thesis using F(4) [OF k(1) kn] F(5) [OF k(1) kn] by simp
    next
      case False
      then have k': "fs + RNNOISE_FRAME_SIZE \<le> k" by simp
      have "denoised_from eng ch spc st cur fs k =
          denoised_from eng ch spc st1 cur (fs + RNNOISE_FRAME_SIZE) k"
        using False by (simp add: denoised_from.simps [of _ _ _ _ _ fs] n_def [symmetric] st1
            split: prod.splits)
      also have "\<dots> = denoised_from eng ch spc st1 cur1 (fs + RNNOISE_FRAME_SIZE) k"
        by (rule denoised_from_cong [symmetric]) (rule later)
      finally have d: "denoised_from eng ch spc st cur fs k =
          denoised_from eng ch spc st1 cur1 (fs + RNNOISE_FRAME_SIZE) k" .
      have "position ch k < length cur1"
      proof -
        from "1.IH" [OF \<open>fs < spc\<close> n_def n(3) pf refl ov rest ch fs'] k' k(2)
        show ?thesis by simp
      qed
      then have "position ch k < length cur" using F(2) by simp
      with I4 [OF k' k(2)] later [OF k'] d show ?thesis by simp
    qed
    from len state other conv show ?thesis by blast
  qed
qed

text \<open>The loop over the frames returns, when every conversion it makes is defined.\<close>

lemma frames_loop_defined:
  "0 < ch \<Longrightarrow> 0 \<le> fs \<Longrightarrow> spc * ch \<le> int (length cur) \<Longrightarrow>
   spc \<le> INT_MAX - RNNOISE_FRAME_SIZE \<Longrightarrow>
   (\<And>x st fi i. float_to_s16 (enhance_sample fp_contract s thr g (s16_to_float x) (snd (eng st fi) i)) \<noteq> None) \<Longrightarrow>
   \<exists>st' res. frames_loop fp_contract eng s thr g ch spc st cur fs = Some (st', res)"
proof (induction fp_contract eng s thr g ch spc st cur fs rule: frames_loop.induct)
  case (1 fp_contract eng s thr g ch spc st cur fs)
  note ch = \<open>0 < ch\<close> and fs = \<open>0 \<le> fs\<close>
  show ?case
  proof (cases "fs < spc")
    case False
    then show ?thesis by (simp add: frames_loop.simps [of _ _ _ _ _ _ _ _ _ fs])
  next
    case True
    define n where "n = min RNNOISE_FRAME_SIZE (spc - fs)"
    from True have n: "0 < n" "n \<le> RNNOISE_FRAME_SIZE" "\<not> n \<le> 0" "fs + n \<le> spc"
      by (simp_all add: n_def RNNOISE_FRAME_SIZE_def)
    have inb: "(fs + n - 1) * ch < int (length cur)"
    proof -
      from n(4) have "fs + n - 1 < spc" by simp
      with ch have "(fs + n - 1) * ch < spc * ch" by simp
      with "1.prems"(3) show ?thesis by simp
    qed
    from process_frame_defined [OF ch fs n(1,2) inb, where s = s and thr = thr and g = g
        and eng = eng and st = st and fp_contract = fp_contract] "1.prems"(5)
    obtain st1 cur1 where pf: "process_frame fp_contract eng s thr g ch st cur fs n = Some (st1, cur1)"
      by blast
    have len: "length cur1 = length cur" by (rule process_frame_Some(2) [OF pf ch fs n(1,2)])
    have ov: "\<not> INT_MAX < fs + RNNOISE_FRAME_SIZE" using True "1.prems"(4) by simp
    have fs': "0 \<le> fs + RNNOISE_FRAME_SIZE" using fs by (simp add: RNNOISE_FRAME_SIZE_def)
    have "\<exists>st' res. frames_loop fp_contract eng s thr g ch spc st1 cur1 (fs + RNNOISE_FRAME_SIZE) = Some (st', res)"
      using "1.prems"(3,4,5) len
      by (intro "1.IH" [OF True n_def n(3) pf refl ov ch fs']) simp_all
    with True n(3) pf ov show ?thesis
      by (simp add: frames_loop.simps [of _ _ _ _ _ _ _ _ _ fs] n_def [symmetric])
  qed
qed

lemma c_div_pos: "0 < a \<Longrightarrow> 0 < b \<Longrightarrow> c_div a b = a div b"
  by (simp add: c_div_def)

lemma c_div_bounds:
  assumes "0 < a" "0 < b"
  shows "0 \<le> c_div a b" "c_div a b * b \<le> a" "c_div a b \<le> a"
proof -
  show "0 \<le> c_div a b" using assms by (simp add: c_div_pos pos_imp_zdiv_nonneg_iff)
  have "a div b * b = a - a mod b" by (simp add: minus_mod_eq_div_mult)
  moreover have "0 \<le> a mod b" using assms(2) by simp
  ultimately show "c_div a b * b \<le> a" using assms by (simp add: c_div_pos)
  show "c_div a b \<le> a"
    using assms by (simp add: c_div_pos int_div_le_self)
qed

lemma process_run:
  assumes "0 < ch" "0 < n"
  shows "process_audio_with_rnnoise fp_contract eng (Some st) samples n sr ch s thr g =
     (case frames_loop fp_contract eng s thr g ch (c_div n ch) st samples 0 of
        None \<Rightarrow> None
      | Some (st', res) \<Rightarrow> Some (Succeeded, res, Some st'))"
  using assms by (simp add: process_audio_with_rnnoise_def Let_def)

text \<open>The positions the frames cover are those of the samples of the first channel.\<close>

lemma frame_positions_eq:
  "frame_positions n ch = {position ch k | k. 0 \<le> k \<and> k < c_div n ch}"
proof (intro set_eqI iffI)
  fix p assume "p \<in> frame_positions n ch"
  then obtain f i where "p = position ch (f + i)" "0 \<le> f" "f < c_div n ch" "0 \<le> i"
    "i < min RNNOISE_FRAME_SIZE (c_div n ch - f)"
    by (auto simp: frame_positions_def Let_def)
  then show "p \<in> {position ch k | k. 0 \<le> k \<and> k < c_div n ch}"
    by (intro CollectI exI [of _ "f + i"]) simp
next
  fix p assume "p \<in> {position ch k | k. 0 \<le> k \<and> k < c_div n ch}"
  then obtain k where k: "p = position ch k" "0 \<le> k" "k < c_div n ch" by auto
  define f where "f = k div RNNOISE_FRAME_SIZE * RNNOISE_FRAME_SIZE"
  define i where "i = k mod RNNOISE_FRAME_SIZE"
  have "k = f + i" "0 \<le> f" "f mod RNNOISE_FRAME_SIZE = 0" "0 \<le> i" "i < RNNOISE_FRAME_SIZE"
    using k(2) by (simp_all add: f_def i_def RNNOISE_FRAME_SIZE_def)
  moreover from this k(3) have "f < c_div n ch" "i < c_div n ch - f" by simp_all
  ultimately show "p \<in> frame_positions n ch"
    unfolding frame_positions_def Let_def using k(1)
    by (intro CollectI exI [of _ f] exI [of _ i]) simp
qed

lemma process_frame_small:
  assumes "n \<le> RNNOISE_FRAME_SIZE"
  shows "process_frame fp_contract eng s thr g ch st samples fs n =
     (if \<forall>i<nat n. 0 \<le> (fs + int i) * ch \<and> (fs + int i) * ch < int (length samples)
      then
        (let r = eng st (frame_input samples fs ch n)
         in map_option (Pair (fst r))
              (interleave samples fs ch
                 (map (\<lambda>i. enhance_sample fp_contract s thr g
                        (s16_to_float (samples ! position ch (fs + int i))) (snd r i))
                    [0..<nat n])
                 [0..<nat n]))
      else None)"
proof -
  have "interleave samples fs ch
      (map (\<lambda>i. enhance_sample fp_contract s thr g (frame_input samples fs ch n ! i)
             (snd (eng st (frame_input samples fs ch n)) i)) [0..<nat RNNOISE_FRAME_SIZE])
      [0..<nat n] =
    interleave samples fs ch
      (map (\<lambda>i. enhance_sample fp_contract s thr g (s16_to_float (samples ! position ch (fs + int i)))
             (snd (eng st (frame_input samples fs ch n)) i)) [0..<nat n])
      [0..<nat n]"
    using assms by (intro interleave_cong) (auto simp: frame_input_nth)
  then show ?thesis by (auto simp: process_frame_eq Let_def)
qed

section \<open>Running the pipeline on a small buffer\<close>

lemma frames_loop_single:
  assumes "0 < spc" "spc \<le> RNNOISE_FRAME_SIZE"
  shows "frames_loop fp_contract eng s thr g ch spc st samples 0 = process_frame fp_contract eng s thr g ch st samples 0 spc"
proof -
  have "frames_loop fp_contract eng s thr g ch spc st' samples' RNNOISE_FRAME_SIZE = Some (st', samples')"
    for st' samples'
    using assms(2) by (simp add: frames_loop.simps [of _ _ _ _ _ _ _ _ _ RNNOISE_FRAME_SIZE])
  with assms show ?thesis
    by (simp add: frames_loop.simps [of _ _ _ _ _ _ _ _ _ 0] min_def RNNOISE_FRAME_SIZE_def
        INT_MAX_def split: option.splits)
qed

lemma process_single_frame:
  assumes "0 < ch" "0 < n" "0 < c_div n ch" "c_div n ch \<le> RNNOISE_FRAME_SIZE"
  shows "process_audio_with_rnnoise fp_contract eng (Some st) samples n sr ch s thr g =
     map_option (\<lambda>(st', res). (Succeeded, res, Some st'))
       (process_frame fp_contract eng s thr g ch st samples 0 (c_div n ch))"
  using assms by (simp add: process_run frames_loop_single split: option.splits)

text \<open>
  A run on a concrete buffer is computed in two steps: the loops are unrolled first
  (\<open>frame_eval\<close>), the float operations are computed after (\<open>float_eval\<close>).
\<close>

lemmas frame_eval = process_single_frame c_div_def process_frame_small RNNOISE_FRAME_SIZE_def
  position_def upt_conv_Cons const_engine_def

lemmas float_eval = round32_eval s16_to_float_exact float_to_s16_def enhance_sample_def
  blend_def clamp_def fgt_def fge_def c_trunc_def store16_def

lemma example_first_channel:
  "process_audio_with_rnnoise False (const_engine (Finite 12345)) (Some ())
     [1000, 77, - 5, 32767, - 32768, 9] 5 48000 2 (Finite 0) (Finite 0) False
   = Some (Succeeded, [999, 77, - 4, 32767, - 32768, 9], Some ())"
  by (simp add: frame_eval) (simp add: float_eval)

lemma c_div_nonpos: "n \<le> 0 \<Longrightarrow> 0 < ch \<Longrightarrow> c_div n ch \<le> 0"
proof -
  assume "n \<le> 0" "0 < ch"
  then have "sgn n \<le> 0" "0 \<le> \<bar>n\<bar> div \<bar>ch\<bar>" "sgn ch = 1"
    by (simp_all add: sgn_if pos_imp_zdiv_nonneg_iff)
  then show ?thesis by (simp add: c_div_def mult_nonpos_nonneg)
qed

lemma model_output_first_frame:
  assumes "k < RNNOISE_FRAME_SIZE"
  shows "model_output eng st samples n ch k =
    snd (eng st (frame_input samples 0 ch (min RNNOISE_FRAME_SIZE (c_div n ch)))) (nat k)"
  using assms
  by (simp add: model_output_def denoised_from.simps [of _ _ _ _ _ 0] Let_def split: prod.splits)

text \<open>A call that succeeds, read through the loop over the frames.\<close>

lemma process_Succeeded:
  assumes "process_audio_with_rnnoise fp_contract eng (Some st) samples n sr ch s thr g =
      Some (Succeeded, res, rs')"
    and "0 \<le> k" "k < c_div n ch"
  shows "float_to_s16 (enhance_sample fp_contract s thr g (s16_to_float (samples ! position ch k))
        (model_output eng st samples n ch k)) = Some (res ! position ch k)"
    and "position ch k < length samples"
proof -
  from assms(1) have ch: "0 < ch"
    by (auto simp: process_audio_with_rnnoise_def split: if_splits)
  have n: "0 < n"
  proof (rule ccontr)
    assume "\<not> 0 < n"
    then have "c_div n ch \<le> 0" using ch by (intro c_div_nonpos) simp_all
    with assms(2,3) show False by simp
  qed
  from assms(1) obtain st' where
    loop: "frames_loop fp_contract eng s thr g ch (c_div n ch) st samples 0 = Some (st', res)"
    by (auto simp: process_run [OF ch n] split: option.splits)
  from frames_loop_Some [OF loop ch] assms(2,3)
  show "float_to_s16 (enhance_sample fp_contract s thr g (s16_to_float (samples ! position ch k))
        (model_output eng st samples n ch k)) = Some (res ! position ch k)"
    and "position ch k < length samples"
    by (simp_all add: model_output_def)
qed

text \<open>A call returns, when the denoiser gives finite numbers and the strength is one.\<close>

lemma process_defined:
  assumes ch: "0 < ch" and len: "n \<le> int (length samples)"
    and ov: "n \<le> INT_MAX - RNNOISE_FRAME_SIZE"
    and s: "is_finite s" and eng: "\<forall>st fi i. finite32 (snd (eng st fi) i)"
  shows "\<exists>res st'. process_audio_with_rnnoise fp_contract eng (Some st) samples n sr ch s thr g =
      Some (Succeeded, res, Some st') \<and> length res = length samples \<and>
      (\<forall>p. (\<forall>k. 0 \<le> k \<and> k < c_div n ch \<longrightarrow> p \<noteq> position ch k) \<longrightarrow> res ! p = samples ! p)"
proof (cases "0 < n")
  case False
  then show ?thesis using ch by (simp add: process_audio_with_rnnoise_def)
next
  case True
  note b = c_div_bounds [OF True ch]
  have "\<exists>st' res. frames_loop fp_contract eng s thr g ch (c_div n ch) st samples 0 = Some (st', res)"
  proof (rule frames_loop_defined [OF ch])
    show "c_div n ch * ch \<le> int (length samples)" using b(2) len by simp
    show "c_div n ch \<le> INT_MAX - RNNOISE_FRAME_SIZE" using b(3) ov by simp
    fix x st fi i
    from enhance_sample_defined [OF s eng [rule_format], of fp_contract thr g x st fi i]
    show "float_to_s16 (enhance_sample fp_contract s thr g (s16_to_float x) (snd (eng st fi) i)) \<noteq> None"
      by auto
  qed simp
  then obtain st' res where
    loop: "frames_loop fp_contract eng s thr g ch (c_div n ch) st samples 0 = Some (st', res)" by blast
  from frames_loop_Some [OF loop ch] loop show ?thesis
    by (simp add: process_run [OF ch True])
qed

lemma denoised_from_engine:
  "(\<And>st fi i. P (snd (eng st fi) i)) \<Longrightarrow> P (denoised_from eng ch spc st samples fs k)"
proof (induction eng ch spc st samples fs k rule: denoised_from.induct)
  case (1 eng ch spc st samples fs k)
  define n where "n = min RNNOISE_FRAME_SIZE (spc - fs)"
  obtain st1 den where r: "eng st (frame_input samples fs ch n) = (st1, den)"
    by (cases "eng st (frame_input samples fs ch n)")
  show ?case
  proof (cases "k < fs + RNNOISE_FRAME_SIZE")
    case True
    from "1.prems" [of st "frame_input samples fs ch n" "nat (k - fs)"] True show ?thesis
      by (simp add: denoised_from.simps [of _ _ _ _ _ fs] n_def [symmetric] r)
  next
    case False
    from "1.IH" [OF n_def r [symmetric] refl False "1.prems"] False show ?thesis
      by (simp add: denoised_from.simps [of _ _ _ _ _ fs] n_def [symmetric] r)
  qed
qed

lemma model_output_finite32:
  "\<forall>st fi i. finite32 (snd (eng st fi) i) \<Longrightarrow> finite32 (model_output eng st samples n ch k)"
  unfolding model_output_def by (rule denoised_from_engine) simp

text \<open>The relative error of the rounding of a number in the normal range.\<close>

lemma round32_rel_error:
  assumes lo: "pow2 (- 126) \<le> \<bar>x\<bar>" and hi: "\<bar>x\<bar> < 2 ^ 24"
  shows "\<exists>r. round32 x = Finite r \<and> \<bar>r - x\<bar> \<le> \<bar>x\<bar> / 2 ^ 24"
proof -
  define q where "q = pow2 (binade x - 23)"
  define m where "m = rne (x / q)"
  have q: "0 < q" by (simp add: q_def)
  have "pow2 (binade x) \<le> \<bar>x\<bar>" using binade_lower [of x] lo by auto
  moreover have "pow2 (binade x) = 2 ^ 23 * q"
  proof -
    have "binade x = 23 + (binade x - 23)" by simp
    then have "pow2 (binade x) = pow2 (23 + (binade x - 23))" by (rule arg_cong)
    also have "\<dots> = pow2 23 * q" unfolding q_def by (rule pow2_add)
    finally show ?thesis by (simp add: pow2_def)
  qed
  ultimately have qx: "q \<le> \<bar>x\<bar> / 2 ^ 23" by (simp add: field_simps)
  have "\<bar>real_of_int m - x / q\<bar> \<le> 1 / 2" unfolding m_def by (rule rne_close)
  then have "\<bar>real_of_int m - x / q\<bar> * q \<le> 1 / 2 * q"
    using q by (intro mult_right_mono) simp_all
  moreover have "\<bar>real_of_int m - x / q\<bar> * q = \<bar>real_of_int m * q - x\<bar>"
  proof -
    have "\<bar>real_of_int m - x / q\<bar> * q = \<bar>(real_of_int m - x / q) * q\<bar>"
      using q by (simp add: abs_mult)
    also have "(real_of_int m - x / q) * q = real_of_int m * q - x"
      using q by (simp add: field_simps)
    finally show ?thesis .
  qed
  ultimately have err: "\<bar>real_of_int m * q - x\<bar> \<le> \<bar>x\<bar> / 2 ^ 24"
    using qx by simp
  from hi have "\<bar>x\<bar> * 2 ^ 0 < 2 ^ 24" by simp
  from round32_grid [OF _ this] obtain r where r: "round32 x = Finite r" by auto
  then have "r = real_of_int m * q"
    by (simp add: round32_def Let_def q_def [symmetric] m_def [symmetric] split: if_splits)
  with r err show ?thesis by simp
qed

text \<open>
  A sample that goes through both conversions moves by one towards zero, and 0 stays.
\<close>

lemma requantize_exact:
  fixes s :: int16
  shows "\<exists>v. float_to_s16 (s16_to_float s) = Some v \<and> sint v = sint s - sgn (sint s)"
proof -
  define n where "n = sint s"
  define x where "x = real_of_int n / 32768 * 32767"
  from requantize_near [of s] obtain v where
    v: "float_to_s16 (Finite (real_of_int n / 32768)) = Some v"
    and pos: "0 \<le> n \<Longrightarrow> n - 1 \<le> sint v \<and> sint v \<le> n \<and> 0 \<le> sint v"
    and neg: "n \<le> 0 \<Longrightarrow> n \<le> sint v \<and> sint v \<le> n + 1 \<and> sint v \<le> 0"
    unfolding n_def by blast
  have nb: "- 32768 \<le> n" "n \<le> 32767" using sint16_bounds [of s] by (simp_all add: n_def)
  then have rb: "real_of_int (- 32768) \<le> real_of_int n" "real_of_int n \<le> real_of_int 32767"
    by (simp_all only: of_int_le_iff)
  have "sint v \<noteq> n" if nz: "n \<noteq> 0"
  proof
    assume eq: "sint v = n"
    from nz have "1 \<le> \<bar>n\<bar>" by simp
    then have "real_of_int 1 \<le> real_of_int \<bar>n\<bar>" by (simp only: of_int_le_iff)
    then have an: "1 \<le> \<bar>real_of_int n\<bar>" by simp
    have ax: "\<bar>x\<bar> = \<bar>real_of_int n\<bar> * (32767 / 32768)" by (simp add: x_def abs_mult)
    have lo: "pow2 (- 126) \<le> \<bar>x\<bar>"
    proof -
      have "pow2 (- 126) \<le> pow2 (- 1)" by (rule pow2_mono) simp
      also have "\<dots> \<le> 1 * (32767 / 32768)" by (simp add: pow2_def)
      also have "\<dots> \<le> \<bar>x\<bar>" unfolding ax using an by (intro mult_right_mono) simp_all
      finally show ?thesis .
    qed
    have hi: "\<bar>x\<bar> < 2 ^ 24" using rb by (simp add: x_def)
    from round32_rel_error [OF lo hi] obtain r where
      r: "round32 x = Finite r" and err: "\<bar>r - x\<bar> \<le> \<bar>x\<bar> / 2 ^ 24" by blast
    have gap: "\<bar>x\<bar> / 2 ^ 24 < \<bar>real_of_int n\<bar> / 32768"
      unfolding ax using an by simp
    have xn: "real_of_int n - x = real_of_int n / 32768" by (simp add: x_def)
    from float_to_s16_Finite [of "real_of_int n / 32768" r] r v
    have vr: "Some v = (if 32767 \<le> r then Some 32767 else if r \<le> - 32768 then Some (- 32768)
       else Some (word_of_int (c_trunc r)))"
      by (simp add: x_def)
    show False
    proof (cases "0 < n")
      case True
      then have "0 < real_of_int n" by simp
      with err gap xn have rn: "r < real_of_int n" by linarith
      with rb have "\<not> 32767 \<le> r" by simp
      moreover from pos True eq have "0 \<le> sint v" by simp
      have r0: "0 \<le> r"
      proof -
        from True have "real_of_int 1 \<le> real_of_int n" by (simp only: of_int_le_iff)
        then have "0 \<le> x - \<bar>x\<bar> / 2 ^ 24" unfolding ax x_def by simp
        with err show ?thesis by linarith
      qed
      then have "\<not> r \<le> - 32768" by simp
      ultimately have vt: "v = word_of_int (c_trunc r)" using vr by simp
      define t where "t = c_trunc r"
      have "t = \<lfloor>r\<rfloor>" unfolding t_def using r0 by (rule c_trunc_nonneg)
      then have t: "t < n" "0 \<le> t" using rn r0 by (simp_all add: floor_less_iff)
      with nb have "sint (word_of_int t :: int16) = t"
        by (intro sint_word_of_int16) simp_all
      with vt t eq show False by (simp add: t_def)
    next
      case False
      with nz have n0: "n < 0" by simp
      then have "real_of_int n < 0" by simp
      with err gap xn have rn: "real_of_int n < r" by linarith
      with rb have "\<not> r \<le> - 32768" by simp
      have r0: "r \<le> 0"
      proof -
        from n0 have "real_of_int n \<le> real_of_int (- 1)" by (simp only: of_int_le_iff)
        then have "x + \<bar>x\<bar> / 2 ^ 24 \<le> 0" unfolding ax x_def by simp
        with err show ?thesis by linarith
      qed
      then have "\<not> 32767 \<le> r" by simp
      with \<open>\<not> r \<le> - 32768\<close> have vt: "v = word_of_int (c_trunc r)" using vr by simp
      define t where "t = c_trunc r"
      have "t = \<lceil>r\<rceil>" unfolding t_def using r0 by (rule c_trunc_nonpos)
      then have t: "n < t" "t \<le> 0" using rn r0 by (simp_all add: less_ceiling_iff ceiling_le_iff)
      with nb have "sint (word_of_int t :: int16) = t"
        by (intro sint_word_of_int16) simp_all
      with vt t eq show False by (simp add: t_def)
    qed
  qed
  with pos neg have "sint v = n - sgn n"
    by (cases "n = 0"; cases "0 < n") (auto simp: sgn_if)
  with v show ?thesis by (simp add: s16_to_float_exact n_def del: of_int_sint)
qed

lemma process_state:
  assumes "process_audio_with_rnnoise fp_contract eng (Some st) samples n sr ch s thr g =
      Some (Succeeded, res, rs')"
    and "0 < ch" "0 < n"
  shows "rs' = Some (state_from eng ch (c_div n ch) st samples 0)"
proof -
  from assms obtain st' where
    loop: "frames_loop fp_contract eng s thr g ch (c_div n ch) st samples 0 = Some (st', res)"
    and rs': "rs' = Some st'"
    by (auto simp: process_run [OF assms(2,3)] split: option.splits)
  from frames_loop_Some [OF loop assms(2)] rs' show ?thesis by simp
qed

lemma map_nth_take_drop:
  assumes "a + n \<le> length xs"
  shows "map (\<lambda>i. f (xs ! (a + i))) [0..<n] = map f (take n (drop a xs))"
  using assms by (intro nth_equalityI) simp_all

text \<open>The two frames of a buffer of 960 samples with one channel.\<close>

lemma frame_input_mono_first:
  assumes "length samples = 960"
  shows "frame_input samples 0 1 480 = map s16_to_float (take 480 samples)"
  using map_nth_take_drop [of 0 480 samples s16_to_float] assms
  by (simp add: frame_input_def position_def RNNOISE_FRAME_SIZE_def)

lemma frame_input_mono_second:
  assumes "length samples = 960"
  shows "frame_input samples 480 1 480 = map s16_to_float (drop 480 samples)"
proof -
  have "nat (480 + int i) = 480 + i" for i by simp
  with map_nth_take_drop [of 480 480 samples s16_to_float] assms show ?thesis
    by (simp add: frame_input_def position_def RNNOISE_FRAME_SIZE_def)
qed

lemma two_frames:
  assumes len: "length samples = 960"
  shows "k < 480 \<Longrightarrow> model_output eng st samples 960 1 (int k) =
      snd (eng st (map s16_to_float (take 480 samples))) k"
    and "k < 480 \<Longrightarrow> model_output eng st samples 960 1 (480 + int k) =
      snd (eng (fst (eng st (map s16_to_float (take 480 samples))))
             (map s16_to_float (drop 480 samples))) k"
    and "state_from eng 1 960 st samples 0 =
      fst (eng (fst (eng st (map s16_to_float (take 480 samples))))
             (map s16_to_float (drop 480 samples)))"
proof -
  have spc: "c_div 960 1 = 960" by (simp add: c_div_def)
  note fi = frame_input_mono_first [OF len] frame_input_mono_second [OF len]
  show "model_output eng st samples 960 1 (int k) =
      snd (eng st (map s16_to_float (take 480 samples))) k" if "k < 480"
    using that
    by (simp add: model_output_def spc denoised_from.simps [of _ _ _ _ _ 0]
        RNNOISE_FRAME_SIZE_def fi split: prod.splits)
  show "model_output eng st samples 960 1 (480 + int k) =
      snd (eng (fst (eng st (map s16_to_float (take 480 samples))))
             (map s16_to_float (drop 480 samples))) k" if "k < 480"
    using that
    by (simp add: model_output_def spc denoised_from.simps [of _ _ _ _ _ 0]
        denoised_from.simps [of _ _ _ _ _ 480] RNNOISE_FRAME_SIZE_def fi split: prod.splits)
  show "state_from eng 1 960 st samples 0 =
      fst (eng (fst (eng st (map s16_to_float (take 480 samples))))
             (map s16_to_float (drop 480 samples)))"
    by (simp add: state_from.simps [of _ _ _ _ _ 0] state_from.simps [of _ _ _ _ _ 480]
        state_from.simps [of _ _ _ _ _ 960] RNNOISE_FRAME_SIZE_def fi)
qed

lemma enhance_sample_full_strength:
  "enhance_sample fp_contract (Finite 1) thr False original denoised =
     clamp (blend fp_contract (Finite 1) original denoised)"
  by (simp add: enhance_sample_def)

lemma blend_one_exact_sub:
  assumes "exact_sub original denoised" and "is_float32 denoised"
  shows "blend fp_contract (Finite 1) original denoised = denoised"
  using assms blend_one_exact by (cases original; cases denoised) simp_all

section \<open>The properties of the specification\<close>

text \<open>
  C8: a call made while there is no denoiser (\<^verbatim>\<open>rnnoise_state\<close> is null) fails as
  \<open>EngineUnavailable\<close> and leaves the buffer as it is.
\<close>

theorem engine_absent_fails:
  "process_audio_with_rnnoise fp_contract rnnoise_process_frame None samples numSamples sampleRate
     channels strength gateThreshold useSpectralGating
   = Some (Failed EngineUnavailable, samples, None)"
  by (simp add: process_audio_with_rnnoise_def)

text \<open>
  C9: with a denoiser and \<open>channels > 0\<close>, a call with \<open>numSamples \<le> 0\<close> succeeds, and
  neither the buffer nor the state of the denoiser changes.
\<close>

theorem empty_chunk_succeeds:
  assumes "numSamples \<le> 0" and "0 < channels"
  shows "process_audio_with_rnnoise fp_contract rnnoise_process_frame (Some st) samples numSamples
     sampleRate channels strength gateThreshold useSpectralGating
   = Some (Succeeded, samples, Some st)"
  using assms by (simp add: process_audio_with_rnnoise_def)

theorem empty_chunk_succeeds_witness:
  "(0::int) \<le> 0 \<and> (0::int) < 2 \<and>
   process_audio_with_rnnoise False (const_engine NaN) (Some ()) [5, 6] 0 48000 2
     (Finite 1) (Finite 0) True
   = Some (Succeeded, [5, 6], Some ())"
  using empty_chunk_succeeds [of 0 2 False "const_engine NaN" "()" "[5, 6]" 48000 "Finite 1"
      "Finite 0" True]
  by simp

text \<open>
  C10: with a denoiser, a call with \<open>0 < numSamples < channels\<close> succeeds; the loop over the
  frames starts with \<open>samples_per_channel = 0\<close> and returns at once, and neither the buffer
  nor the state of the denoiser changes.
\<close>

theorem short_chunk_succeeds:
  assumes "0 < numSamples" and "numSamples < channels"
  shows "c_div numSamples channels = 0 \<and>
    frames_loop fp_contract rnnoise_process_frame strength gateThreshold useSpectralGating channels
      (c_div numSamples channels) st samples 0 = Some (st, samples) \<and>
    process_audio_with_rnnoise fp_contract rnnoise_process_frame (Some st) samples numSamples
      sampleRate channels strength gateThreshold useSpectralGating
    = Some (Succeeded, samples, Some st)"
proof -
  from assms have spc: "c_div numSamples channels = 0" by (simp add: c_div_pos)
  have loop: "frames_loop fp_contract rnnoise_process_frame strength gateThreshold useSpectralGating channels
      0 st samples 0 = Some (st, samples)"
    by (simp add: frames_loop.simps [of _ _ _ _ _ _ _ _ _ 0])
  from assms have "0 < channels" by simp
  from process_run [OF this assms(1), of fp_contract rnnoise_process_frame st samples sampleRate strength
      gateThreshold useSpectralGating] spc loop
  show ?thesis by simp
qed

theorem short_chunk_succeeds_witness:
  "(0::int) < 1 \<and> (1::int) < 2 \<and>
   process_audio_with_rnnoise False (const_engine NaN) (Some ()) [5, 6] 1 48000 2
     (Finite 1) (Finite 0) True
   = Some (Succeeded, [5, 6], Some ())"
  using short_chunk_succeeds [of 1 2 False "const_engine NaN" "Finite 1" "Finite 0" True "()"
      "[5, 6]" 48000]
  by simp

text \<open>
  C7, as the code has it: a call with \<open>channels \<le> 0\<close> fails and leaves the buffer as it
  is; it fails as \<open>InvalidChannelCount\<close> when there is a denoiser, and as
  \<open>EngineUnavailable\<close> when there is none, since that check comes first.
\<close>

theorem invalid_channels_fails:
  assumes "channels \<le> 0"
  shows "process_audio_with_rnnoise fp_contract rnnoise_process_frame rnnoise_state samples numSamples
     sampleRate channels strength gateThreshold useSpectralGating
   = Some (Failed (case rnnoise_state of None \<Rightarrow> EngineUnavailable
                   | Some st \<Rightarrow> InvalidChannelCount), samples, rnnoise_state)"
  using assms by (simp add: process_audio_with_rnnoise_def split: option.splits)

theorem invalid_channels_fails_witness:
  "(0::int) \<le> 0 \<and>
   process_audio_with_rnnoise False (const_engine NaN) (Some ()) [5, 6] 2 48000 0
     (Finite 1) (Finite 0) True
   = Some (Failed InvalidChannelCount, [5, 6], Some ())"
  using invalid_channels_fails [of 0 False "const_engine NaN" "Some ()" "[5, 6]" 2 48000
      "Finite 1" "Finite 0" True]
  by simp

text \<open>
  C7, as the claim states it, fails for a call with \<open>channels = 0\<close> made while there is no
  denoiser: the call fails as \<open>EngineUnavailable\<close>.
\<close>

theorem invalid_channels_counterexample:
  "process_audio_with_rnnoise False (const_engine NaN) None [5, 6] 2 48000 0
     (Finite 1) (Finite 0) True
   = Some (Failed EngineUnavailable, [5, 6], None) \<and>
   Failed EngineUnavailable \<noteq> Failed InvalidChannelCount"
  by (simp add: process_audio_with_rnnoise_def)

text \<open>
  C6: \<open>s16_to_float\<close> gives the sample divided by 32768, with no rounding.
  \<open>float_to_s16\<close> multiplies by 32767 as floats; a product of at least 32767 (or
  \<open>+\<infinity>\<close>) gives 32767, one of at most -32768 (or \<open>-\<infinity>\<close>) gives -32768, and any other
  number is truncated towards zero, which fits the 16 bits.
\<close>

theorem sample_codec:
  "s16_to_float sample = Finite (real_of_int (sint sample) / 32768) \<and>
   (\<forall>x. fmul f (Finite 32767) = Finite x \<longrightarrow>
      (32767 \<le> x \<longrightarrow> float_to_s16 f = Some 32767) \<and>
      (x \<le> - 32768 \<longrightarrow> float_to_s16 f = Some (- 32768)) \<and>
      (- 32768 < x \<and> x < 32767 \<longrightarrow>
         (\<exists>v. float_to_s16 f = Some v \<and> sint v = (if 0 \<le> x then \<lfloor>x\<rfloor> else \<lceil>x\<rceil>)))) \<and>
   (fmul f (Finite 32767) = PInf \<longrightarrow> float_to_s16 f = Some 32767) \<and>
   (fmul f (Finite 32767) = NInf \<longrightarrow> float_to_s16 f = Some (- 32768)) \<and>
   (fmul f (Finite 32767) = NaN \<longrightarrow> float_to_s16 f = None)"
proof -
  have mid: "\<exists>v. float_to_s16 f = Some v \<and> sint v = (if 0 \<le> x then \<lfloor>x\<rfloor> else \<lceil>x\<rceil>)"
    if "fmul f (Finite 32767) = Finite x" "- 32768 < x" "x < 32767" for x
  proof -
    from c_trunc_range [OF that(2,3)]
    have "sint (word_of_int (c_trunc x) :: int16) = c_trunc x"
      by (intro sint_word_of_int16) simp_all
    with that c_trunc_range [OF that(2,3)] show ?thesis
      by (simp add: float_to_s16_def fge_def c_trunc_def)
  qed
  show ?thesis
    using mid by (auto simp: s16_to_float_exact float_to_s16_def fge_def simp del: of_int_sint)
qed

theorem sample_codec_witness:
  "s16_to_float 16384 = Finite (1 / 2) \<and>
   fmul (Finite (1 / 2)) (Finite 32767) = Finite (32767 / 2) \<and>
   float_to_s16 (Finite (1 / 2)) = Some 16383 \<and>
   float_to_s16 (Finite (- 1 / 2)) = Some (- 16383) \<and>
   float_to_s16 (Finite 1) = Some 32767 \<and>
   float_to_s16 (Finite (- 1)) = Some (- 32767)"
  using sample_codec [of 16384 "Finite (1 / 2)"]
  by (simp add: round32_eval float_to_s16_def fge_def c_trunc_def)

text \<open>
  C1: a call that succeeds changes the buffer only at the positions
  \<open>(frame_start + i) * channels\<close> its frames cover. The length of the buffer stays, and
  so does every sample of another channel and every sample from
  \<open>samples_per_channel * channels\<close> on, where the remainder of the buffer and the padding of
  the last frame lie.
\<close>

theorem only_first_channel_written:
  assumes "process_audio_with_rnnoise fp_contract rnnoise_process_frame rnnoise_state samples numSamples
     sampleRate channels strength gateThreshold useSpectralGating
   = Some (Succeeded, samples', rnnoise_state')"
  shows "length samples' = length samples \<and>
    (\<forall>p. p \<notin> frame_positions numSamples channels \<longrightarrow> samples' ! p = samples ! p) \<and>
    (\<forall>p. int p mod channels \<noteq> 0 \<longrightarrow> samples' ! p = samples ! p) \<and>
    (\<forall>p. c_div numSamples channels * channels \<le> int p \<longrightarrow> samples' ! p = samples ! p)"
proof (cases "rnnoise_state \<noteq> None \<and> 0 < channels \<and> 0 < numSamples")
  case False
  with assms have "samples' = samples"
    by (auto simp: process_audio_with_rnnoise_def split: option.splits if_splits)
  then show ?thesis by simp
next
  case True
  then obtain st where st: "rnnoise_state = Some st" and ch: "0 < channels"
    and n: "0 < numSamples" by auto
  define spc where "spc = c_div numSamples channels"
  from assms obtain st' where
    loop: "frames_loop fp_contract rnnoise_process_frame strength gateThreshold useSpectralGating channels
      spc st samples 0 = Some (st', samples')"
    by (auto simp: st process_run [OF ch n] spc_def split: option.splits)
  from frames_loop_Some [OF loop ch]
  have len: "length samples' = length samples"
    and other: "\<And>p. (\<forall>k. 0 \<le> k \<and> k < spc \<longrightarrow> p \<noteq> position channels k)
      \<Longrightarrow> samples' ! p = samples ! p"
    by simp_all
  have pos: "int (position channels k) = k * channels" if "0 \<le> k" for k
    using that ch by (simp add: position_def)
  have 1: "samples' ! p = samples ! p" if "p \<notin> frame_positions numSamples channels" for p
    using that by (intro other) (auto simp: frame_positions_eq spc_def)
  have 2: "samples' ! p = samples ! p" if "int p mod channels \<noteq> 0" for p
  proof (rule other, intro allI impI)
    fix k assume "0 \<le> k \<and> k < spc"
    then have "int (position channels k) mod channels = 0" by (simp add: pos)
    with that show "p \<noteq> position channels k" by auto
  qed
  have 3: "samples' ! p = samples ! p" if "spc * channels \<le> int p" for p
  proof (rule other, intro allI impI)
    fix k assume k: "0 \<le> k \<and> k < spc"
    with ch have "k * channels < spc * channels" by simp
    with that k have "int (position channels k) < int p" by (simp add: pos)
    then show "p \<noteq> position channels k" by auto
  qed
  from len 1 2 3 show ?thesis by (simp add: spc_def)
qed

theorem only_first_channel_written_witness:
  "process_audio_with_rnnoise False (const_engine (Finite 12345)) (Some ())
     [1000, 77, - 5, 32767, - 32768, 9] 5 48000 2 (Finite 0) (Finite 0) False
   = Some (Succeeded, [999, 77, - 4, 32767, - 32768, 9], Some ()) \<and>
   frame_positions 5 2 = {0, 2} \<and>
   [999, 77, - 4, 32767, - 32768, 9 :: int16] ! 1 = [1000, 77, - 5, 32767, - 32768, 9] ! 1 \<and>
   [999, 77, - 4, 32767, - 32768, 9 :: int16] ! 3 = [1000, 77, - 5, 32767, - 32768, 9] ! 3 \<and>
   [999, 77, - 4, 32767, - 32768, 9 :: int16] ! 4 = [1000, 77, - 5, 32767, - 32768, 9] ! 4 \<and>
   [999, 77, - 4, 32767, - 32768, 9 :: int16] ! 5 = [1000, 77, - 5, 32767, - 32768, 9] ! 5"
proof -
  have "frame_positions 5 2 = {position 2 k | k. k \<in> {0, 1}}"
    unfolding frame_positions_eq by (rule Collect_cong) (auto simp: c_div_def)
  also have "\<dots> = {position 2 0, position 2 1}" by auto
  also have "\<dots> = {0, 2}" by (simp add: position_def)
  finally have "frame_positions 5 2 = {0, 2}" .
  with only_first_channel_written [OF example_first_channel] example_first_channel
  show ?thesis by simp
qed

text \<open>
  C4: in a call with the gate that succeeds, where the magnitude of the blended value of a
  processed sample is below the threshold, the sample written back is 0. The blended
  value is the one the build computes, with the product and the difference rounded apart
  or fused.
\<close>

theorem gate_writes_zero:
  assumes "process_audio_with_rnnoise fp_contract rnnoise_process_frame (Some st) samples numSamples
      sampleRate channels strength gateThreshold True
    = Some (Succeeded, samples', rnnoise_state')"
    and "0 \<le> k" and "k < c_div numSamples channels"
    and "flt (fabs (blend fp_contract strength (s16_to_float (samples ! position channels k))
           (model_output rnnoise_process_frame st samples numSamples channels k)))
         gateThreshold"
  shows "samples' ! position channels k = 0"
  using process_Succeeded(1) [OF assms(1-3)] enhance_sample_gated [OF assms(4)] by simp

text \<open>
  A sample that the gate silences: the original is \<open>1229 / 32768\<close>, the denoiser gives
  the float nearest to \<open>1/10\<close> and the strength is the float nearest to \<open>1/3\<close>. The blended
  value is \<open>15659828 / 2\<^sup>2\<^sup>8\<close> when the product and the difference are rounded apart and
  \<open>15659827 / 2\<^sup>2\<^sup>8\<close> when they are fused. Without the gate the sample written is 1911;
  with the gate and the threshold \<open>1/2\<close> it is 0 in both builds; with the threshold
  \<open>15659828 / 2\<^sup>2\<^sup>8\<close> only the fused value is below it.
\<close>

lemma example_gate_blend:
  "blend False (Finite (11184811 / 33554432)) (s16_to_float 1229)
     (Finite (13421773 / 134217728)) = Finite (3914957 / 67108864)"
  "blend True (Finite (11184811 / 33554432)) (s16_to_float 1229)
     (Finite (13421773 / 134217728)) = Finite (15659827 / 268435456)"
  by (simp_all add: float_eval)

lemma example_gate_off:
  "process_audio_with_rnnoise False (const_engine (Finite (13421773 / 134217728))) (Some ())
     [1229, 7] 2 48000 2 (Finite (11184811 / 33554432)) (Finite (1 / 2)) False
   = Some (Succeeded, [1911, 7], Some ())"
  "process_audio_with_rnnoise True (const_engine (Finite (13421773 / 134217728))) (Some ())
     [1229, 7] 2 48000 2 (Finite (11184811 / 33554432)) (Finite (3914957 / 67108864)) False
   = Some (Succeeded, [1911, 7], Some ())"
  by (simp_all add: frame_eval) (simp_all add: float_eval)

lemma example_gate_apart:
  "process_audio_with_rnnoise False (const_engine (Finite (13421773 / 134217728))) (Some ())
     [1229, 7] 2 48000 2 (Finite (11184811 / 33554432)) (Finite (1 / 2)) True
   = Some (Succeeded, [0, 7], Some ())"
  by (simp add: frame_eval) (simp add: float_eval)

lemma example_gate_fused:
  "process_audio_with_rnnoise True (const_engine (Finite (13421773 / 134217728))) (Some ())
     [1229, 7] 2 48000 2 (Finite (11184811 / 33554432)) (Finite (3914957 / 67108864)) True
   = Some (Succeeded, [0, 7], Some ())"
  by (simp add: frame_eval) (simp add: float_eval)

lemma example_gate_not_below:
  "process_audio_with_rnnoise False (const_engine (Finite (13421773 / 134217728))) (Some ())
     [1229, 7] 2 48000 2 (Finite (11184811 / 33554432)) (Finite (3914957 / 67108864)) True
   = Some (Succeeded, [1911, 7], Some ())"
  by (simp add: frame_eval) (simp add: float_eval)

theorem gate_writes_zero_witness:
  "process_audio_with_rnnoise False (const_engine (Finite (13421773 / 134217728))) (Some ())
     [1229, 7] 2 48000 2 (Finite (11184811 / 33554432)) (Finite (1 / 2)) True
   = Some (Succeeded, [0, 7], Some ()) \<and>
   process_audio_with_rnnoise True (const_engine (Finite (13421773 / 134217728))) (Some ())
     [1229, 7] 2 48000 2 (Finite (11184811 / 33554432)) (Finite (3914957 / 67108864)) True
   = Some (Succeeded, [0, 7], Some ()) \<and>
   (0 :: int) < c_div 2 2 \<and>
   flt (fabs (blend False (Finite (11184811 / 33554432)) (s16_to_float ([1229, 7] ! position 2 0))
          (model_output (const_engine (Finite (13421773 / 134217728))) () [1229, 7] 2 2 0)))
       (Finite (1 / 2)) \<and>
   flt (fabs (blend True (Finite (11184811 / 33554432)) (s16_to_float ([1229, 7] ! position 2 0))
          (model_output (const_engine (Finite (13421773 / 134217728))) () [1229, 7] 2 2 0)))
       (Finite (3914957 / 67108864)) \<and>
   [0, 7 :: int16] ! position 2 0 = 0 \<and>
   process_audio_with_rnnoise False (const_engine (Finite (13421773 / 134217728))) (Some ())
     [1229, 7] 2 48000 2 (Finite (11184811 / 33554432)) (Finite (1 / 2)) False
   = Some (Succeeded, [1911, 7], Some ()) \<and>
   process_audio_with_rnnoise True (const_engine (Finite (13421773 / 134217728))) (Some ())
     [1229, 7] 2 48000 2 (Finite (11184811 / 33554432)) (Finite (3914957 / 67108864)) False
   = Some (Succeeded, [1911, 7], Some ())"
proof -
  have k: "(0 :: int) < c_div 2 2" by (simp add: c_div_def)
  have m: "model_output (const_engine (Finite (13421773 / 134217728))) () [1229, 7] 2 2 0
      = Finite (13421773 / 134217728)"
    by (simp add: model_output_first_frame RNNOISE_FRAME_SIZE_def const_engine_def)
  have x: "[1229, 7 :: int16] ! position 2 0 = 1229" by (simp add: position_def)
  have apart: "flt (fabs (blend False (Finite (11184811 / 33554432))
        (s16_to_float ([1229, 7] ! position 2 0))
        (model_output (const_engine (Finite (13421773 / 134217728))) () [1229, 7] 2 2 0)))
      (Finite (1 / 2))"
    by (simp add: m x example_gate_blend)
  have fused: "flt (fabs (blend True (Finite (11184811 / 33554432))
        (s16_to_float ([1229, 7] ! position 2 0))
        (model_output (const_engine (Finite (13421773 / 134217728))) () [1229, 7] 2 2 0)))
      (Finite (3914957 / 67108864))"
    by (simp add: m x example_gate_blend)
  from gate_writes_zero [OF example_gate_apart order_refl k apart]
    gate_writes_zero [OF example_gate_fused order_refl k fused]
    example_gate_apart example_gate_fused example_gate_off k apart fused
  show ?thesis by simp
qed

text \<open>
  C5, for a denoiser that gives finite numbers and a finite strength: the call returns, and
  each sample it writes is the result of a conversion that is defined, within the 16 bits.
  The conversion of one sample is defined whenever the blended value is not NaN.
\<close>

theorem requantized_in_range:
  assumes "0 < channels" and "numSamples \<le> int (length samples)"
    and "numSamples \<le> INT_MAX - RNNOISE_FRAME_SIZE"
    and "is_finite strength"
    and "\<forall>st float_in i. finite32 (snd (rnnoise_process_frame st float_in) i)"
  shows "(\<forall>original denoised. blend fp_contract strength original denoised \<noteq> NaN \<longrightarrow>
      (\<exists>v. float_to_s16 (enhance_sample fp_contract strength gateThreshold useSpectralGating
              original denoised) = Some v \<and> - 32768 \<le> sint v \<and> sint v \<le> 32767)) \<and>
    (\<exists>samples' st'.
      process_audio_with_rnnoise fp_contract rnnoise_process_frame (Some st) samples numSamples
        sampleRate channels strength gateThreshold useSpectralGating
      = Some (Succeeded, samples', Some st') \<and>
      (\<forall>k. 0 \<le> k \<and> k < c_div numSamples channels \<longrightarrow>
         float_to_s16 (enhance_sample fp_contract strength gateThreshold useSpectralGating
           (s16_to_float (samples ! position channels k))
           (model_output rnnoise_process_frame st samples numSamples channels k))
         = Some (samples' ! position channels k) \<and>
         - 32768 \<le> sint (samples' ! position channels k) \<and>
         sint (samples' ! position channels k) \<le> 32767))"
proof
  show "\<forall>original denoised. blend fp_contract strength original denoised \<noteq> NaN \<longrightarrow>
      (\<exists>v. float_to_s16 (enhance_sample fp_contract strength gateThreshold useSpectralGating
              original denoised) = Some v \<and> - 32768 \<le> sint v \<and> sint v \<le> 32767)"
  proof (intro allI impI)
    fix original denoised
    assume "blend fp_contract strength original denoised \<noteq> NaN"
    then have "enhance_sample fp_contract strength gateThreshold useSpectralGating original denoised \<noteq> NaN"
      by (simp add: enhance_sample_def Let_def clamp_NaN_iff)
    from float_to_s16_defined [OF this] obtain v where
      "float_to_s16 (enhance_sample fp_contract strength gateThreshold useSpectralGating original denoised)
        = Some v" ..
    with sint16_bounds [of v] show "\<exists>v. float_to_s16 (enhance_sample fp_contract strength gateThreshold
        useSpectralGating original denoised) = Some v \<and> - 32768 \<le> sint v \<and> sint v \<le> 32767"
      by simp
  qed
next
  from process_defined [OF assms, of fp_contract st sampleRate gateThreshold useSpectralGating]
  obtain res st' where run: "process_audio_with_rnnoise fp_contract rnnoise_process_frame (Some st) samples
      numSamples sampleRate channels strength gateThreshold useSpectralGating
      = Some (Succeeded, res, Some st')" by blast
  have "float_to_s16 (enhance_sample fp_contract strength gateThreshold useSpectralGating
           (s16_to_float (samples ! position channels k))
           (model_output rnnoise_process_frame st samples numSamples channels k))
         = Some (res ! position channels k) \<and>
         - 32768 \<le> sint (res ! position channels k) \<and>
         sint (res ! position channels k) \<le> 32767"
    if "0 \<le> k \<and> k < c_div numSamples channels" for k
    using process_Succeeded(1) [OF run, of k] that sint16_bounds [of "res ! position channels k"]
    by simp
  with run show "\<exists>samples' st'.
      process_audio_with_rnnoise fp_contract rnnoise_process_frame (Some st) samples numSamples
        sampleRate channels strength gateThreshold useSpectralGating
      = Some (Succeeded, samples', Some st') \<and>
      (\<forall>k. 0 \<le> k \<and> k < c_div numSamples channels \<longrightarrow>
         float_to_s16 (enhance_sample fp_contract strength gateThreshold useSpectralGating
           (s16_to_float (samples ! position channels k))
           (model_output rnnoise_process_frame st samples numSamples channels k))
         = Some (samples' ! position channels k) \<and>
         - 32768 \<le> sint (samples' ! position channels k) \<and>
         sint (samples' ! position channels k) \<le> 32767)"
    by blast
qed

lemma example_loud:
  "process_audio_with_rnnoise False (const_engine (Finite (2 ^ 100))) (Some ()) [100, 7, - 3] 3 48000 1
     (Finite 2) (Finite 0) False = Some (Succeeded, [32767, 32767, 32767], Some ())"
  by (simp add: frame_eval) (simp add: float_eval)

theorem requantized_in_range_witness:
  "(0 :: int) < 1 \<and> (3 :: int) \<le> int (length [100, 7, - 3 :: int16]) \<and>
   3 \<le> INT_MAX - RNNOISE_FRAME_SIZE \<and> is_finite (Finite 2) \<and>
   finite32 (Finite (2 ^ 100)) \<and>
   process_audio_with_rnnoise False (const_engine (Finite (2 ^ 100))) (Some ()) [100, 7, - 3] 3 48000 1
     (Finite 2) (Finite 0) False = Some (Succeeded, [32767, 32767, 32767], Some ()) \<and>
   float_to_s16 (enhance_sample False (Finite 2) (Finite 0) False (s16_to_float 100) (Finite (2 ^ 100)))
     = Some 32767 \<and>
   sint (32767 :: int16) = 32767"
proof -
  have f: "finite32 (Finite (2 ^ 100))"
    by (simp add: finite32_def round32_eval)
  then have e: "\<forall>st float_in i. finite32 (snd (const_engine (Finite (2 ^ 100)) st float_in) i)"
    by (simp add: const_engine_def)
  have h: "(0 :: int) < 1" "(3 :: int) \<le> int (length [100, 7, - 3 :: int16])"
    "3 \<le> INT_MAX - RNNOISE_FRAME_SIZE" "is_finite (Finite 2)"
    by (simp_all add: INT_MAX_def RNNOISE_FRAME_SIZE_def)
  have v: "float_to_s16 (enhance_sample False (Finite 2) (Finite 0) False (s16_to_float 100)
      (Finite (2 ^ 100))) = Some 32767"
    by (simp add: float_eval)
  from requantized_in_range [OF h e, where st = "()" and sampleRate = 48000
      and gateThreshold = "Finite 0" and useSpectralGating = False] h f example_loud v
  show ?thesis by simp
qed

text \<open>
  C5, as the claim states it, fails for a model output of infinite magnitude under the
  strength 0: the blended value is NaN, neither the clamp nor the guards of
  \<open>float_to_s16\<close> change it, and its conversion to 16 bits is undefined.
\<close>

theorem requantized_in_range_counterexample:
  "blend False (Finite 0) (s16_to_float 0) PInf = NaN \<and>
   enhance_sample False (Finite 0) (Finite 0) False (s16_to_float 0) PInf = NaN \<and>
   float_to_s16 (enhance_sample False (Finite 0) (Finite 0) False (s16_to_float 0) PInf) = None \<and>
   process_audio_with_rnnoise False (const_engine PInf) (Some ()) [0] 1 48000 1
     (Finite 0) (Finite 0) False = None \<and>
   blend True (Finite 0) (s16_to_float 0) PInf = NaN \<and>
   process_audio_with_rnnoise True (const_engine PInf) (Some ()) [0] 1 48000 1
     (Finite 0) (Finite 0) False = None"
  by (simp add: frame_eval) (simp add: float_eval)

text \<open>
  C3, for a denoiser that gives finite numbers: with strength 0 and without the gate the
  call returns, each processed sample is the original moved by one towards zero (0 stays),
  and no sample of the buffer differs from the original by more than one.
\<close>

theorem zero_strength_near_identity:
  assumes "0 < channels" and "numSamples \<le> int (length samples)"
    and "numSamples \<le> INT_MAX - RNNOISE_FRAME_SIZE"
    and "\<forall>st float_in i. finite32 (snd (rnnoise_process_frame st float_in) i)"
  shows "\<exists>samples' st'.
      process_audio_with_rnnoise fp_contract rnnoise_process_frame (Some st) samples numSamples
        sampleRate channels (Finite 0) gateThreshold False
      = Some (Succeeded, samples', Some st') \<and>
      length samples' = length samples \<and>
      (\<forall>k. 0 \<le> k \<and> k < c_div numSamples channels \<longrightarrow>
         sint (samples' ! position channels k) =
         sint (samples ! position channels k) - sgn (sint (samples ! position channels k))) \<and>
      (\<forall>p. \<bar>sint (samples' ! p) - sint (samples ! p)\<bar> \<le> 1)"
proof -
  have fin: "is_finite (Finite 0)" by simp
  from process_defined [OF assms(1-3) fin assms(4), of fp_contract st sampleRate gateThreshold False]
  obtain res st' where
    run: "process_audio_with_rnnoise fp_contract rnnoise_process_frame (Some st) samples numSamples
        sampleRate channels (Finite 0) gateThreshold False = Some (Succeeded, res, Some st')"
    and len: "length res = length samples"
    and other: "\<And>p. (\<forall>k. 0 \<le> k \<and> k < c_div numSamples channels \<longrightarrow> p \<noteq> position channels k)
        \<Longrightarrow> res ! p = samples ! p"
    by blast
  have moved: "sint (res ! position channels k) =
      sint (samples ! position channels k) - sgn (sint (samples ! position channels k))"
    if "0 \<le> k \<and> k < c_div numSamples channels" for k
  proof -
    define x where "x = samples ! position channels k"
    from process_Succeeded(1) [OF run, of k] that
    have "float_to_s16 (enhance_sample fp_contract (Finite 0) gateThreshold False (s16_to_float x)
        (model_output rnnoise_process_frame st samples numSamples channels k))
      = Some (res ! position channels k)" by (simp add: x_def)
    then have "float_to_s16 (s16_to_float x) = Some (res ! position channels k)"
      by (simp add: enhance_sample_zero_strength [OF model_output_finite32 [OF assms(4)]])
    with requantize_exact [of x] show ?thesis by (auto simp: x_def)
  qed
  have near: "\<bar>sint (res ! p) - sint (samples ! p)\<bar> \<le> 1" for p
  proof (cases "\<exists>k. 0 \<le> k \<and> k < c_div numSamples channels \<and> p = position channels k")
    case True
    then obtain k where "0 \<le> k \<and> k < c_div numSamples channels" "p = position channels k"
      by blast
    with moved [of k] show ?thesis by (simp add: sgn_if)
  next
    case False
    then have "res ! p = samples ! p" by (intro other) blast
    then show ?thesis by simp
  qed
  from run len moved near show ?thesis by blast
qed

theorem zero_strength_near_identity_witness:
  "(0 :: int) < 2 \<and> (5 :: int) \<le> int (length [1000, 77, - 5, 32767, - 32768, 9 :: int16]) \<and>
   5 \<le> INT_MAX - RNNOISE_FRAME_SIZE \<and> finite32 (Finite 12345) \<and>
   process_audio_with_rnnoise False (const_engine (Finite 12345)) (Some ())
     [1000, 77, - 5, 32767, - 32768, 9] 5 48000 2 (Finite 0) (Finite 0) False
   = Some (Succeeded, [999, 77, - 4, 32767, - 32768, 9], Some ()) \<and>
   sint (999 :: int16) = sint (1000 :: int16) - sgn (sint (1000 :: int16)) \<and>
   sint (- 4 :: int16) = sint (- 5 :: int16) - sgn (sint (- 5 :: int16))"
proof -
  have f: "finite32 (Finite 12345)" by (simp add: finite32_def round32_eval)
  then have e: "\<forall>st float_in i. finite32 (snd (const_engine (Finite 12345) st float_in) i)"
    by (simp add: const_engine_def)
  have h: "(0 :: int) < 2" "(5 :: int) \<le> int (length [1000, 77, - 5, 32767, - 32768, 9 :: int16])"
    "5 \<le> INT_MAX - RNNOISE_FRAME_SIZE"
    by (simp_all add: INT_MAX_def RNNOISE_FRAME_SIZE_def)
  from zero_strength_near_identity [OF h e, where st = "()" and sampleRate = 48000
      and gateThreshold = "Finite 0"] h f example_first_channel
  show ?thesis by simp
qed

text \<open>
  C3, as the claim states it, fails for a denoiser that gives NaN: the blended value is
  NaN whatever the strength, and its conversion to 16 bits is undefined.
\<close>

theorem zero_strength_near_identity_counterexample:
  "enhance_sample False (Finite 0) (Finite 0) False (s16_to_float 1000) NaN = NaN \<and>
   float_to_s16 (enhance_sample False (Finite 0) (Finite 0) False (s16_to_float 1000) NaN) = None \<and>
   process_audio_with_rnnoise False (const_engine NaN) (Some ()) [1000] 1 48000 1
     (Finite 0) (Finite 0) False = None \<and>
   enhance_sample True (Finite 0) (Finite 0) False (s16_to_float 1000) NaN = NaN \<and>
   process_audio_with_rnnoise True (const_engine NaN) (Some ()) [1000] 1 48000 1
     (Finite 0) (Finite 0) False = None"
  by (simp add: frame_eval) (simp add: float_eval)

text \<open>
  C2, as the code has it, for a denoiser that gives finite floats: on a buffer of 960
  samples with one channel, at strength 1 and without the gate, the call returns after two
  frames, and every output sample is the conversion of the clamped float value
  \<open>original - (original - denoised) * 1\<close>. Where the float subtraction
  \<open>original - denoised\<close> rounds nothing away that value is the output of the model, and
  the sample is the clamped and converted output of the model.
\<close>

theorem full_strength_two_frames:
  assumes "length samples = 960"
    and "\<forall>st float_in i. finite32 (snd (rnnoise_process_frame st float_in) i)"
  shows "let float_in1 = map s16_to_float (take 480 samples);
             (st1, denoised1) = rnnoise_process_frame st float_in1;
             float_in2 = map s16_to_float (drop 480 samples);
             (st2, denoised2) = rnnoise_process_frame st1 float_in2
         in \<exists>samples'.
              process_audio_with_rnnoise fp_contract rnnoise_process_frame (Some st) samples 960 48000 1
                (Finite 1) gateThreshold False
              = Some (Succeeded, samples', Some st2) \<and>
              length samples' = 960 \<and>
              (\<forall>k<480.
                 float_to_s16 (clamp (blend fp_contract (Finite 1) (s16_to_float (samples ! k))
                   (denoised1 k))) = Some (samples' ! k) \<and>
                 (exact_sub (s16_to_float (samples ! k)) (denoised1 k) \<longrightarrow>
                    float_to_s16 (clamp (denoised1 k)) = Some (samples' ! k))) \<and>
              (\<forall>k<480.
                 float_to_s16 (clamp (blend fp_contract (Finite 1) (s16_to_float (samples ! (480 + k)))
                   (denoised2 k))) = Some (samples' ! (480 + k)) \<and>
                 (exact_sub (s16_to_float (samples ! (480 + k))) (denoised2 k) \<longrightarrow>
                    float_to_s16 (clamp (denoised2 k)) = Some (samples' ! (480 + k))))"
proof -
  define eng where "eng = rnnoise_process_frame"
  define r1 where "r1 = eng st (map s16_to_float (take 480 samples))"
  define r2 where "r2 = eng (fst r1) (map s16_to_float (drop 480 samples))"
  have fin: "\<forall>st float_in i. finite32 (snd (eng st float_in) i)"
    using assms(2) by (simp add: eng_def)
  have h: "(0 :: int) < 1" "(960 :: int) \<le> int (length samples)"
    "960 \<le> INT_MAX - RNNOISE_FRAME_SIZE" "is_finite (Finite 1)"
    using assms(1) by (simp_all add: INT_MAX_def RNNOISE_FRAME_SIZE_def)
  from process_defined [OF h fin, of fp_contract st 48000 gateThreshold False]
  obtain res st' where
    run: "process_audio_with_rnnoise fp_contract eng (Some st) samples 960 48000 1 (Finite 1)
        gateThreshold False = Some (Succeeded, res, Some st')"
    and len: "length res = length samples"
    by blast
  have spc: "c_div 960 1 = 960" by (simp add: c_div_def)
  from process_state [OF run] two_frames(3) [OF assms(1), of eng st]
  have st': "st' = fst r2" by (simp add: spc r1_def r2_def)
  have conv: "float_to_s16 (clamp (blend fp_contract (Finite 1) (s16_to_float (samples ! nat j))
        (model_output eng st samples 960 1 j))) = Some (res ! nat j)"
    if "0 \<le> j" "j < 960" for j
    using process_Succeeded(1) [OF run, of j] that
    by (simp add: spc enhance_sample_full_strength position_def)
  have exact: "float_to_s16 (clamp d) = Some v"
    if "float_to_s16 (clamp (blend fp_contract (Finite 1) x d)) = Some v" "exact_sub x d" "finite32 d"
    for x d v
    using that blend_one_exact_sub [of x d] by (simp add: finite32_def)
  have first: "float_to_s16 (clamp (blend fp_contract (Finite 1) (s16_to_float (samples ! k))
          (snd r1 k))) = Some (res ! k) \<and>
      (exact_sub (s16_to_float (samples ! k)) (snd r1 k) \<longrightarrow>
         float_to_s16 (clamp (snd r1 k)) = Some (res ! k))" if "k < 480" for k
  proof -
    from conv [of "int k"] that two_frames(1) [OF assms(1) that, of eng st]
    have c: "float_to_s16 (clamp (blend fp_contract (Finite 1) (s16_to_float (samples ! k)) (snd r1 k)))
        = Some (res ! k)" by (simp add: r1_def)
    have "finite32 (snd r1 k)" using fin by (simp add: r1_def)
    with c exact show ?thesis by blast
  qed
  have second: "float_to_s16 (clamp (blend fp_contract (Finite 1) (s16_to_float (samples ! (480 + k)))
          (snd r2 k))) = Some (res ! (480 + k)) \<and>
      (exact_sub (s16_to_float (samples ! (480 + k))) (snd r2 k) \<longrightarrow>
         float_to_s16 (clamp (snd r2 k)) = Some (res ! (480 + k)))" if "k < 480" for k
  proof -
    have n: "nat (480 + int k) = 480 + k" by simp
    from conv [of "480 + int k"] that two_frames(2) [OF assms(1) that, of eng st]
    have c: "float_to_s16 (clamp (blend fp_contract (Finite 1) (s16_to_float (samples ! (480 + k)))
        (snd r2 k))) = Some (res ! (480 + k))" by (simp add: r1_def r2_def n)
    have "finite32 (snd r2 k)" using fin by (simp add: r2_def)
    with c exact show ?thesis by blast
  qed
  from run st' len assms(1) first second
  have "\<exists>samples'.
      process_audio_with_rnnoise fp_contract eng (Some st) samples 960 48000 1 (Finite 1) gateThreshold False
      = Some (Succeeded, samples', Some (fst r2)) \<and>
      length samples' = 960 \<and>
      (\<forall>k<480.
         float_to_s16 (clamp (blend fp_contract (Finite 1) (s16_to_float (samples ! k)) (snd r1 k)))
           = Some (samples' ! k) \<and>
         (exact_sub (s16_to_float (samples ! k)) (snd r1 k) \<longrightarrow>
            float_to_s16 (clamp (snd r1 k)) = Some (samples' ! k))) \<and>
      (\<forall>k<480.
         float_to_s16 (clamp (blend fp_contract (Finite 1) (s16_to_float (samples ! (480 + k))) (snd r2 k)))
           = Some (samples' ! (480 + k)) \<and>
         (exact_sub (s16_to_float (samples ! (480 + k))) (snd r2 k) \<longrightarrow>
            float_to_s16 (clamp (snd r2 k)) = Some (samples' ! (480 + k))))"
    by (intro exI [of _ res]) simp
  then show ?thesis
    by (simp add: Let_def r1_def r2_def eng_def split_beta)
qed

theorem full_strength_two_frames_witness:
  "length (replicate 960 100 :: int16 list) = 960 \<and>
   finite32 (Finite (1 / 4)) \<and>
   exact_sub (s16_to_float 100) (Finite (1 / 4)) \<and>
   float_to_s16 (clamp (Finite (1 / 4))) = Some 8191 \<and>
   process_audio_with_rnnoise False (const_engine (Finite (1 / 4))) (Some ()) (replicate 960 100)
     960 48000 1 (Finite 1) (Finite 0) False
   = Some (Succeeded, replicate 960 8191, Some ())"
proof -
  have f: "finite32 (Finite (1 / 4))" by (simp add: finite32_def round32_eval)
  then have e: "\<forall>st float_in i. finite32 (snd (const_engine (Finite (1 / 4)) st float_in) i)"
    by (simp add: const_engine_def)
  have x: "exact_sub (s16_to_float 100) (Finite (1 / 4))"
    by (simp add: s16_to_float_exact round32_eval)
  have v: "float_to_s16 (clamp (Finite (1 / 4))) = Some 8191"
    by (simp add: float_eval)
  have l: "length (replicate 960 100 :: int16 list) = 960" by simp
  have c: "snd (const_engine d st fi) = (\<lambda>i. d)" "fst (const_engine d st fi) = st"
    for d and st :: unit and fi
    by (simp_all add: const_engine_def)
  from full_strength_two_frames [OF l e, where st = "()" and gateThreshold = "Finite 0"]
  have "\<exists>res.
      process_audio_with_rnnoise False (const_engine (Finite (1 / 4))) (Some ())
        (replicate 960 100) 960 48000 1 (Finite 1) (Finite 0) False
      = Some (Succeeded, res, Some ()) \<and>
      length res = 960 \<and>
      (\<forall>k<480.
         float_to_s16 (clamp (blend False (Finite 1) (s16_to_float (replicate 960 100 ! k))
           (Finite (1 / 4)))) = Some (res ! k) \<and>
         (exact_sub (s16_to_float (replicate 960 100 ! k)) (Finite (1 / 4)) \<longrightarrow>
            float_to_s16 (clamp (Finite (1 / 4))) = Some (res ! k))) \<and>
      (\<forall>k<480.
         float_to_s16 (clamp (blend False (Finite 1) (s16_to_float (replicate 960 100 ! (480 + k)))
           (Finite (1 / 4)))) = Some (res ! (480 + k)) \<and>
         (exact_sub (s16_to_float (replicate 960 100 ! (480 + k))) (Finite (1 / 4)) \<longrightarrow>
            float_to_s16 (clamp (Finite (1 / 4))) = Some (res ! (480 + k))))"
    by (simp only: Let_def case_prod_beta c)
  then obtain res where
    run: "process_audio_with_rnnoise False (const_engine (Finite (1 / 4))) (Some ())
        (replicate 960 100) 960 48000 1 (Finite 1) (Finite 0) False
      = Some (Succeeded, res, Some ())"
    and len: "length res = 960"
    and first: "\<And>k. k < 480 \<Longrightarrow>
        exact_sub (s16_to_float (replicate 960 100 ! k)) (Finite (1 / 4)) \<longrightarrow>
        float_to_s16 (clamp (Finite (1 / 4))) = Some (res ! k)"
    and second: "\<And>k. k < 480 \<Longrightarrow>
        exact_sub (s16_to_float (replicate 960 100 ! (480 + k))) (Finite (1 / 4)) \<longrightarrow>
        float_to_s16 (clamp (Finite (1 / 4))) = Some (res ! (480 + k))"
    by blast
  have "res ! i = 8191" if "i < 960" for i
  proof (cases "i < 480")
    case True
    with first [of i] x v show ?thesis by simp
  next
    case False
    with that have "i - 480 < 480" "i = 480 + (i - 480)" by simp_all
    with second [of "i - 480"] x v that show ?thesis by simp
  qed
  with len have "res = replicate 960 8191" by (simp add: list_eq_iff_nth_eq)
  with run l f x v show ?thesis by simp
qed

text \<open>
  C2, as the claim states it, fails on the buffer that holds 16384 followed by 959 zeros,
  for a denoiser that gives \<open>4097 / 2\<^sup>2\<^sup>7\<close> everywhere: the output of the model converts
  to 1, but the difference \<open>1/2 - 4097 / 2\<^sup>2\<^sup>7\<close> rounds to \<open>1/2 - 1 / 2\<^sup>1\<^sup>5\<close>, the blended
  value is \<open>1 / 2\<^sup>1\<^sup>5\<close>, and the first sample written is 0.
\<close>

theorem full_strength_two_frames_counterexample:
  "finite32 (Finite (4097 / 134217728)) \<and>
   model_output (const_engine (Finite (4097 / 134217728))) () (16384 # replicate 959 0) 960 1 0
     = Finite (4097 / 134217728) \<and>
   float_to_s16 (clamp (Finite (4097 / 134217728))) = Some 1 \<and>
   blend False (Finite 1) (s16_to_float 16384) (Finite (4097 / 134217728)) = Finite (1 / 32768) \<and>
   written (process_audio_with_rnnoise False (const_engine (Finite (4097 / 134217728))) (Some ())
              (16384 # replicate 959 0) 960 48000 1 (Finite 1) (Finite 0) False) 0
     = Some 0 \<and>
   blend True (Finite 1) (s16_to_float 16384) (Finite (4097 / 134217728)) = Finite (1 / 32768) \<and>
   written (process_audio_with_rnnoise True (const_engine (Finite (4097 / 134217728))) (Some ())
              (16384 # replicate 959 0) 960 48000 1 (Finite 1) (Finite 0) False) 0
     = Some 0"
proof -
  have f: "finite32 (Finite (4097 / 134217728))" by (simp add: finite32_def round32_eval)
  then have e: "\<forall>st float_in i.
      finite32 (snd (const_engine (Finite (4097 / 134217728)) st float_in) i)"
    by (simp add: const_engine_def)
  have m: "model_output (const_engine (Finite (4097 / 134217728))) ()
      (16384 # replicate 959 0) 960 1 0 = Finite (4097 / 134217728)"
    by (simp add: model_output_first_frame RNNOISE_FRAME_SIZE_def const_engine_def)
  have v: "float_to_s16 (clamp (Finite (4097 / 134217728))) = Some 1"
    by (simp add: float_eval)
  have b: "blend fc (Finite 1) (s16_to_float 16384) (Finite (4097 / 134217728))
      = Finite (1 / 32768)" for fc
    by (cases fc) (simp_all add: float_eval)
  have h: "(0 :: int) < 1" "(960 :: int) \<le> int (length (16384 # replicate 959 0 :: int16 list))"
    "960 \<le> INT_MAX - RNNOISE_FRAME_SIZE" "is_finite (Finite 1)"
    by (simp_all add: INT_MAX_def RNNOISE_FRAME_SIZE_def)
  have w: "written (process_audio_with_rnnoise fc (const_engine (Finite (4097 / 134217728)))
        (Some ()) (16384 # replicate 959 0) 960 48000 1 (Finite 1) (Finite 0) False) 0
      = Some 0" for fc
  proof -
    from process_defined [OF h e, of fc "()" 48000 "Finite 0" False]
    obtain res st' where
      run: "process_audio_with_rnnoise fc (const_engine (Finite (4097 / 134217728))) (Some ())
          (16384 # replicate 959 0) 960 48000 1 (Finite 1) (Finite 0) False
        = Some (Succeeded, res, Some st')"
      by blast
    have "(0 :: int) < c_div 960 1" by (simp add: c_div_def)
    from process_Succeeded(1) [OF run order_refl this]
    have "float_to_s16 (clamp (blend fc (Finite 1) (s16_to_float 16384)
        (Finite (4097 / 134217728)))) = Some (res ! 0)"
      by (simp add: m enhance_sample_full_strength position_def)
    moreover have "float_to_s16 (clamp (Finite (1 / 32768))) = Some 0"
      by (simp add: float_eval)
    ultimately have "res ! 0 = 0" by (simp add: b)
    with run show ?thesis by simp
  qed
  from f m v b w show ?thesis by simp
qed

end
